(* ===== verification/Bvm_Prelude.thy ===== *)
theory Bvm_Prelude
  imports Main "HOL-Library.Word" "HOL-Library.Monad_Syntax"
begin

text \<open>
  What every theory of the development shares: the names of the C integer types, the
  collections of simplification rules the component proofs are driven by, and generic
  facts on options, lists and machine words.

  Conventions. An unsigned C integer of width \<open>w\<close> is a \<open>w word\<close>, so that \<open>+\<close>, \<open>-\<close> and
  \<open>*\<close> wrap as they do in C; a C array is a list or a function on the index type; a C
  function that may run into undefined behaviour (an array index out of range) returns an
  \<^typ>\<open>'a option\<close>, where \<^const>\<open>None\<close> stands for "undefined" and is proved unreachable.
\<close>

unbundle bit_operations_syntax

type_synonym u8 = "8 word"
type_synonym u16 = "16 word"
type_synonym u32 = "32 word"
type_synonym u64 = "64 word"

named_theorems bvm_defs "definitions of the straight-line operations of the machine"
named_theorems bvm_laws "laws of the state components (flags, registers, memory)"
named_theorems bvm_word "facts on 8 and 16 bit words"

subsection \<open>Options\<close>

lemma bind_eq_Some_iff [simp]:
  "(m \<bind> f = Some y) \<longleftrightarrow> (\<exists>x. m = Some x \<and> f x = Some y)"
  by (cases m) auto

lemma bind_Some_simp [simp]: "Some x \<bind> f = f x"
  by simp

subsection \<open>Words\<close>

lemma unat_lt_256 [bvm_word]: "unat (b :: u8) < 256"
  using unsigned_less [of b, where 'a = nat] by simp

lemma unat_lt_65536 [bvm_word]: "unat (w :: u16) < 65536"
  using unsigned_less [of w, where 'a = nat] by simp

lemma word16_bit_eqI:
  fixes a b :: u16
  assumes "\<And>n. n < 16 \<Longrightarrow> bit a n = bit b n"
  shows "a = b"
  using assms by (auto intro: bit_word_eqI)

lemma bit_u8_beyond [simp]: "8 \<le> n \<Longrightarrow> \<not> bit (b :: u8) n"
  using bit_imp_le_length [of b n] by auto

lemma bit_u16_beyond [simp]: "16 \<le> n \<Longrightarrow> \<not> bit (w :: u16) n"
  using bit_imp_le_length [of w n] by auto

lemma bit_byte_mask [simp]: "bit (0xFF :: int) n \<longleftrightarrow> n < 8"
proof -
  have "(0xFF :: int) = mask 8" by (simp add: mask_eq_exp_minus_1)
  then show ?thesis by (simp only: bit_mask_iff) auto
qed

lemma unat_ucast_u16 [simp]: "unat (ucast (b :: u8) :: u16) = unat b"
  using unat_lt_256 [of b] by (simp add: unsigned_ucast_eq take_bit_nat_eq_self)

lemma unat_ucast_u32 [simp]: "unat (ucast (w :: u16) :: u32) = unat w"
  using unat_lt_65536 [of w] by (simp add: unsigned_ucast_eq take_bit_nat_eq_self)

lemma unat_of_nat_u16: "n < 65536 \<Longrightarrow> unat (of_nat n :: u16) = n"
  by (simp add: unsigned_of_nat take_bit_nat_eq_self)

lemma unat_add_nat: "unat (a :: u16) + n < 65536 \<Longrightarrow> unat (a + of_nat n) = unat a + n"
proof -
  assume lt: "unat a + n < 65536"
  then have "unat (of_nat n :: u16) = n" by (intro unat_of_nat_u16) simp
  with lt show ?thesis by (simp add: unat_word_ariths)
qed

text \<open>The test of bit 15, as the C code writes it.\<close>

lemma and_8000_iff [bvm_word]: "(w AND 0x8000 \<noteq> 0) = bit (w :: u16) 15"
proof -
  have "(0x8000 :: u16) = 2 ^ 15" by simp
  then show ?thesis by (simp only: and_exp_eq_0_iff_not_bit not_not)
qed

text \<open>Bytes as 16-bit values.\<close>

lemma ucast_small: "(v :: u16) \<le> 255 \<Longrightarrow> ucast (ucast v :: u8) = v"
proof -
  assume "v \<le> 255"
  then have "unat v \<le> 255" by (simp add: word_le_nat_alt)
  then show ?thesis by (simp add: word_unat_eq_iff unsigned_ucast_eq unsigned_take_bit_eq take_bit_nat_eq_self)
qed

lemma ucast_ucast_u8 [simp]: "ucast (ucast (b :: u8) :: u16) = b"
  by (rule bit_word_eqI) (simp add: bit_simps)

lemma ucast_le_7: "(ucast (b :: u8) :: u16) \<le> 7 \<longleftrightarrow> b \<le> 7"
  by (simp add: word_le_nat_alt)

lemma ucast_le_255: "(ucast (b :: u8) :: u16) \<le> 255"
  using unat_lt_256 [of b] by (simp add: word_le_nat_alt)

end
