(* ===== verification/Bvm_Alu.thy ===== *)
theory Bvm_Alu
  imports Bvm_Prelude
begin

text \<open>
  The arithmetic behind the flag formulas of src/vm.c: what the bit tests on 16-bit and 32-bit
  words mean for the unsigned (\<^const>\<open>uint\<close>) and signed (\<^const>\<open>sint\<close>) values of the operands.
\<close>

lemma uint_u16_nat:
  obtains n where "uint (w :: u16) = int n" "n < 65536"
  using unat_lt_65536 [of w] by (intro that [of "unat w"]) simp_all

lemma bit15_u16: "bit (w :: u16) 15 \<longleftrightarrow> 32768 \<le> uint w"
proof -
  obtain n where n: "uint w = int n" "n < 65536" by (rule uint_u16_nat)
  have "bit w 15 = bit (uint w) 15" by (simp add: bit_uint_iff)
  also have "\<dots> = bit n 15" by (simp add: n bit_of_nat_iff_bit)
  also have "\<dots> = odd (n div 32768)" by (simp add: bit_iff_odd)
  also have "n div 32768 = (if 32768 \<le> n then 1 else 0)"
    using n(2) by (simp add: div_nat_eqI)
  finally show ?thesis by (simp add: n)
qed

lemma sint_u16: "sint (w :: u16) = (if 32768 \<le> uint w then uint w - 65536 else uint w)"
proof -
  obtain n where n: "uint w = int n" "n < 65536" by (rule uint_u16_nat)
  have t: "take_bit 16 (uint w) = uint w"
    using n by (simp add: take_bit_int_eq_self)
  have "sint w = signed_take_bit 15 (uint w)" by (simp add: sint_uint)
  also have "\<dots> = take_bit 16 (uint w) - (if bit (uint w) 15 then 65536 else 0)"
    by (simp add: signed_take_bit_eq_take_bit_minus)
  finally show ?thesis using t by (simp add: bit15_u16 [symmetric] bit_uint_iff)
qed

lemma sint_bounds_u16: "- 32768 \<le> sint (w :: u16)" "sint w \<le> 32767"
  by (rule uint_u16_nat [of w]; simp add: sint_u16)+

lemma uint_add_u16: "uint (a + b :: u16) = (if uint a + uint b < 65536 then uint a + uint b else uint a + uint b - 65536)"
  by (simp add: uint_plus_if')

lemma uint_sub_u16: "uint (a - b :: u16) = (if uint b \<le> uint a then uint a - uint b else uint a + 65536 - uint b)"
  by (simp add: uint_sub_if')

lemma uint_ucast_u32 [simp]: "uint (ucast (w :: u16) :: u32) = uint w"
  by (rule uint_u16_nat [of w]) (simp add: unsigned_ucast_eq take_bit_int_eq_self)

lemma drop_16_neq_0: "drop_bit 16 (w :: u32) \<noteq> 0 \<longleftrightarrow> 65536 \<le> uint w"
proof -
  have "drop_bit 16 w \<noteq> 0 \<longleftrightarrow> drop_bit 16 (unat w) \<noteq> 0"
    by (simp only: unat_drop_bit_eq [symmetric] unat_eq_0)
  also have "\<dots> \<longleftrightarrow> 65536 \<le> unat w"
    by (simp add: drop_bit_eq_div div_eq_0_iff not_less del: neq0_conv)
  finally show ?thesis using of_nat_le_iff [of 65536 "unat w", where 'a = int] by simp
qed

lemma add_result: "ucast ((ucast (a :: u16) :: u32) + ucast b) = a + (b :: u16)"
  by (simp add: word_uint_eq_iff unsigned_ucast_eq uint_word_ariths take_bit_eq_mod mod_mod_cancel)

lemma add_carry: "drop_bit 16 ((ucast (a :: u16) :: u32) + ucast (b :: u16)) \<noteq> 0 \<longleftrightarrow> 65536 \<le> uint a + uint b"
proof -
  obtain x y where xy: "uint a = int x" "x < 65536" "uint b = int y" "y < 65536"
    by (metis uint_u16_nat)
  then have "uint ((ucast a :: u32) + ucast b) = uint a + uint b"
    by (simp add: uint_word_ariths)
  then show ?thesis by (simp only: drop_16_neq_0)
qed

lemma add_overflow:
  "(a XOR (a + b)) AND (b XOR (a + b)) AND 0x8000 \<noteq> 0 \<longleftrightarrow>
     sint a + sint b < -32768 \<or> 32767 < sint (a :: u16) + sint b"
proof -
  obtain x y where xy: "uint a = int x" "x < 65536" "uint b = int y" "y < 65536"
    by (metis uint_u16_nat)
  have "(a XOR (a + b)) AND (b XOR (a + b)) AND 0x8000 \<noteq> 0 \<longleftrightarrow>
     bit a 15 \<noteq> bit (a + b) 15 \<and> bit b 15 \<noteq> bit (a + b) 15"
    by (simp only: and.assoc [symmetric] and_8000_iff bit_and_iff bit_xor_iff)
  also have "\<dots> \<longleftrightarrow> sint a + sint b < -32768 \<or> 32767 < sint a + sint b"
    using xy(2,4) by (auto simp: bit15_u16 sint_u16 uint_add_u16 xy(1,3))
  finally show ?thesis .
qed

lemma sub_overflow:
  "(a XOR b) AND (a XOR (a - b)) AND 0x8000 \<noteq> 0 \<longleftrightarrow>
     sint a - sint b < -32768 \<or> 32767 < sint (a :: u16) - sint b"
proof -
  obtain x y where xy: "uint a = int x" "x < 65536" "uint b = int y" "y < 65536"
    by (metis uint_u16_nat)
  have "(a XOR b) AND (a XOR (a - b)) AND 0x8000 \<noteq> 0 \<longleftrightarrow>
     bit a 15 \<noteq> bit b 15 \<and> bit a 15 \<noteq> bit (a - b) 15"
    by (simp only: and.assoc [symmetric] and_8000_iff bit_and_iff bit_xor_iff)
  also have "\<dots> \<longleftrightarrow> sint a - sint b < -32768 \<or> 32767 < sint a - sint b"
    using xy(2,4) by (auto simp: bit15_u16 sint_u16 uint_sub_u16 xy(1,3))
  finally show ?thesis .
qed

lemma sign_flag: "w AND 0x8000 \<noteq> 0 \<longleftrightarrow> sint (w :: u16) < 0"
  by (rule uint_u16_nat [of w]) (simp add: and_8000_iff bit15_u16 sint_u16)

text \<open>Sign and overflow of a difference agree exactly when the signed difference is not negative.\<close>

lemma sub_sign_overflow:
  "(sint (a - b) < 0 \<longleftrightarrow> sint a - sint b < -32768 \<or> 32767 < sint a - sint b)
     \<longleftrightarrow> sint b \<le> sint (a :: u16)"
proof -
  obtain x y where xy: "uint a = int x" "x < 65536" "uint b = int y" "y < 65536"
    by (metis uint_u16_nat)
  then show ?thesis by (auto simp: sint_u16 uint_sub_u16)
qed

lemma mul_result: "ucast ((ucast (a :: u16) :: u32) * ucast b AND 0xFFFF) = a * (b :: u16)"
proof -
  have m: "(0xFFFF :: u32) = mask 16" by (simp add: mask_eq_exp_minus_1)
  have "ucast ((ucast a :: u32) * ucast b AND 0xFFFF) = (ucast ((ucast a :: u32) * ucast b) :: u16)"
    unfolding m by (rule bit_word_eqI) (simp add: bit_simps)
  also have "\<dots> = a * b"
    by (simp add: word_uint_eq_iff unsigned_ucast_eq uint_word_ariths take_bit_eq_mod mod_mod_cancel)
  finally show ?thesis .
qed

lemma mul_carry: "drop_bit 16 ((ucast (a :: u16) :: u32) * ucast (b :: u16)) \<noteq> 0 \<longleftrightarrow> 65536 \<le> uint a * uint b"
proof -
  obtain x y where xy: "uint a = int x" "x < 65536" "uint b = int y" "y < 65536"
    by (metis uint_u16_nat)
  have "x * y \<le> 65535 * 65535" using xy by (intro mult_le_mono) auto
  then have "int x * int y \<le> 65535 * 65535"
    by (metis of_nat_le_iff of_nat_mult of_nat_numeral)
  then have "uint ((ucast a :: u32) * ucast b) = uint a * uint b"
    by (simp add: uint_word_ariths xy)
  then show ?thesis by (simp only: drop_16_neq_0)
qed

end
