(* ===== verification/Bvm_Common.thy ===== *)
theory Bvm_Common
  imports Bvm_Prelude
begin

text \<open>
  The result codes shared by every subsystem (include/bytevm/common.h, src/common.c).
\<close>

datatype VmResult =
    VM_OK
  | VM_ERR_INVALID_OPCODE
  | VM_ERR_INVALID_MODE
  | VM_ERR_DIV_BY_ZERO
  | VM_ERR_STACK_OVERFLOW
  | VM_ERR_STACK_UNDERFLOW
  | VM_ERR_BAD_BYTECODE_HEADER
  | VM_ERR_INVALID_SYSCALL

text \<open>The switch of the C function is exhaustive over the enumerators, so its trailing
  \<open>return "unknown error"\<close> has no counterpart.\<close>

fun vm_result_str :: "VmResult \<Rightarrow> string" where
  "vm_result_str VM_OK = ''ok''"
| "vm_result_str VM_ERR_INVALID_OPCODE = ''invalid opcode''"
| "vm_result_str VM_ERR_INVALID_MODE = ''invalid addressing mode''"
| "vm_result_str VM_ERR_DIV_BY_ZERO = ''division by zero''"
| "vm_result_str VM_ERR_STACK_OVERFLOW = ''stack overflow''"
| "vm_result_str VM_ERR_STACK_UNDERFLOW = ''stack underflow''"
| "vm_result_str VM_ERR_BAD_BYTECODE_HEADER = ''bad bytecode header''"
| "vm_result_str VM_ERR_INVALID_SYSCALL = ''invalid syscall code''"

lemma vm_result_str_inj: "vm_result_str x = vm_result_str y \<Longrightarrow> x = y"
  by (cases x; cases y) simp_all

end
