(* ===== verification/Bvm_Cpu.thy ===== *)
theory Bvm_Cpu
  imports Bvm_Common
begin

text \<open>
  The CPU: eight 16-bit registers, program counter, stack pointer and FLAGS
  (include/bytevm/cpu.h, src/cpu.c). The register array is a list whose length, 8, is part
  of the well-formedness invariant; reading or writing it at an index outside the array is
  undefined in C and \<^const>\<open>None\<close> here (\<open>reg_get\<close>, \<open>reg_set\<close>).
\<close>

definition CPU_INITIAL_SP :: u16 where
  "CPU_INITIAL_SP = 0xFFFE"

datatype CpuFlagBit = CPU_FLAG_Z | CPU_FLAG_C | CPU_FLAG_S | CPU_FLAG_O

text \<open>The enumerators' values, which are bit positions.\<close>

fun flag_pos :: "CpuFlagBit \<Rightarrow> nat" where
  "flag_pos CPU_FLAG_Z = 0"
| "flag_pos CPU_FLAG_C = 1"
| "flag_pos CPU_FLAG_S = 2"
| "flag_pos CPU_FLAG_O = 3"

record CPU =
  cpu_r :: "u16 list"
  cpu_pc :: u16
  cpu_sp :: u16
  cpu_flags :: u16

definition cpu_init :: "CPU \<Rightarrow> CPU" where
  "cpu_init cpu = cpu\<lparr>cpu_r := replicate 8 0, cpu_pc := 0, cpu_sp := CPU_INITIAL_SP, cpu_flags := 0\<rparr>"

definition cpu_get_flag :: "CPU \<Rightarrow> CpuFlagBit \<Rightarrow> bool" where
  "cpu_get_flag cpu b \<longleftrightarrow> drop_bit (flag_pos b) (cpu_flags cpu) AND 1 \<noteq> 0"

definition cpu_set_flag :: "CPU \<Rightarrow> CpuFlagBit \<Rightarrow> bool \<Rightarrow> CPU" where
  "cpu_set_flag cpu b v =
     (let mask = push_bit (flag_pos b) (1 :: u16)
      in if v then cpu\<lparr>cpu_flags := cpu_flags cpu OR mask\<rparr>
         else cpu\<lparr>cpu_flags := cpu_flags cpu AND NOT mask\<rparr>)"

definition reg_get :: "CPU \<Rightarrow> u16 \<Rightarrow> u16 option" where
  "reg_get cpu i = (if unat i < length (cpu_r cpu) then Some (cpu_r cpu ! unat i) else None)"

definition reg_set :: "CPU \<Rightarrow> u16 \<Rightarrow> u16 \<Rightarrow> CPU option" where
  "reg_set cpu i v =
     (if unat i < length (cpu_r cpu) then Some (cpu\<lparr>cpu_r := (cpu_r cpu)[unat i := v]\<rparr>) else None)"

subsection \<open>The flag interface\<close>

text \<open>What the per-instruction flag updates rely on: writing a flag changes that flag only.\<close>

locale flag_register =
  fixes get :: "'c \<Rightarrow> 'f \<Rightarrow> bool"
    and set :: "'c \<Rightarrow> 'f \<Rightarrow> bool \<Rightarrow> 'c"
  assumes get_set: "get (set c f v) g = (if f = g then v else get c g)"
begin

lemma get_set_same: "get (set c f v) f = v"
  by (simp add: get_set)

lemma get_set_other: "f \<noteq> g \<Longrightarrow> get (set c f v) g = get c g"
  by (simp add: get_set)

text \<open>A sequence of flag updates: the last write to a flag is the one that is read.\<close>

lemma get_fold_set:
  "get (fold (\<lambda>(f, v) c. set c f v) us c) g =
     (case map_of (rev us) g of None \<Rightarrow> get c g | Some v \<Rightarrow> v)"
proof (induction us arbitrary: c)
  case Nil
  then show ?case by simp
next
  case (Cons u us)
  then show ?case
    by (cases u) (auto simp: get_set map_add_def split: option.splits)
qed

end

lemma cpu_get_flag_bit: "cpu_get_flag cpu b = bit (cpu_flags cpu) (flag_pos b)"
  by (simp add: cpu_get_flag_def bit_iff_odd_drop_bit and_one_eq odd_iff_mod_2_eq_one)

lemma flag_pos_inj: "flag_pos a = flag_pos b \<longleftrightarrow> a = b"
  by (cases a; cases b) simp_all

lemma flag_pos_lt: "flag_pos b < 4"
  by (cases b) simp_all

interpretation cpu_flags_if: flag_register cpu_get_flag cpu_set_flag
proof
  fix c f v g
  have "flag_pos g < 16" using flag_pos_lt [of g] by simp
  then show "cpu_get_flag (cpu_set_flag c f v) g = (if f = g then v else cpu_get_flag c g)"
    by (auto simp: cpu_get_flag_bit cpu_set_flag_def Let_def bit_simps flag_pos_inj)
qed

lemmas cpu_flag_laws [bvm_laws] = cpu_flags_if.get_set

lemma cpu_set_flag_frame [simp]:
  "cpu_r (cpu_set_flag cpu b v) = cpu_r cpu"
  "cpu_pc (cpu_set_flag cpu b v) = cpu_pc cpu"
  "cpu_sp (cpu_set_flag cpu b v) = cpu_sp cpu"
  by (simp_all add: cpu_set_flag_def Let_def)

lemma cpu_get_flag_frame [simp]:
  "cpu_get_flag (cpu\<lparr>cpu_r := x\<rparr>) b = cpu_get_flag cpu b"
  "cpu_get_flag (cpu\<lparr>cpu_pc := y\<rparr>) b = cpu_get_flag cpu b"
  "cpu_get_flag (cpu\<lparr>cpu_sp := z\<rparr>) b = cpu_get_flag cpu b"
  by (simp_all add: cpu_get_flag_def)

subsection \<open>Reserved flag bits\<close>

text \<open>Bits 4 to 15 of FLAGS are reserved and read as 0.\<close>

definition flags_reserved_zero :: "CPU \<Rightarrow> bool" where
  "flags_reserved_zero cpu \<longleftrightarrow> drop_bit 4 (cpu_flags cpu) = 0"

lemma flags_reserved_zero_bit:
  "flags_reserved_zero cpu \<longleftrightarrow> (\<forall>n\<ge>4. \<not> bit (cpu_flags cpu) n)"
proof
  assume "flags_reserved_zero cpu"
  then have "bit (drop_bit 4 (cpu_flags cpu)) n \<longleftrightarrow> False" for n
    by (simp add: flags_reserved_zero_def)
  then show "\<forall>n\<ge>4. \<not> bit (cpu_flags cpu) n"
    by (metis bit_drop_bit_eq comp_apply le_add_diff_inverse)
next
  assume "\<forall>n\<ge>4. \<not> bit (cpu_flags cpu) n"
  then show "flags_reserved_zero cpu"
    unfolding flags_reserved_zero_def by (auto intro!: bit_word_eqI simp: bit_simps)
qed

lemma cpu_set_flag_reserved [simp]:
  "flags_reserved_zero (cpu_set_flag cpu b v)" if "flags_reserved_zero cpu"
proof -
  have "4 \<le> n \<Longrightarrow> flag_pos b \<noteq> n" for n using flag_pos_lt [of b] by simp
  with that show ?thesis
    by (auto simp: flags_reserved_zero_bit cpu_set_flag_def Let_def bit_simps)
qed

lemma flags_reserved_zero_frame [simp]:
  "flags_reserved_zero (cpu\<lparr>cpu_r := x\<rparr>) = flags_reserved_zero cpu"
  "flags_reserved_zero (cpu\<lparr>cpu_pc := y\<rparr>) = flags_reserved_zero cpu"
  "flags_reserved_zero (cpu\<lparr>cpu_sp := z\<rparr>) = flags_reserved_zero cpu"
  by (simp_all add: flags_reserved_zero_def)

end
