(* ===== verification/Bvm_Memory.thy ===== *)
theory Bvm_Memory
  imports Bvm_Common
begin

text \<open>
  The 64 KB memory (include/bytevm/memory.h, src/memory.c). The array
  \<open>uint8_t data[65536]\<close> is indexed by \<open>uint16_t\<close> only, so it is a total function on
  16-bit addresses; address arithmetic wraps modulo 65536.
\<close>

record Memory =
  mem_data :: "u16 \<Rightarrow> u8"

definition mem_init :: "Memory \<Rightarrow> Memory" where
  "mem_init mem = mem\<lparr>mem_data := (\<lambda>_. 0)\<rparr>"

definition mem_read8 :: "Memory \<Rightarrow> u16 \<Rightarrow> u8" where
  "mem_read8 mem addr = mem_data mem addr"

definition mem_write8 :: "Memory \<Rightarrow> u16 \<Rightarrow> u8 \<Rightarrow> Memory" where
  "mem_write8 mem addr value = mem\<lparr>mem_data := (mem_data mem)(addr := value)\<rparr>"

definition mem_read16 :: "Memory \<Rightarrow> u16 \<Rightarrow> u16" where
  "mem_read16 mem addr =
     ucast (mem_data mem addr) OR push_bit 8 (ucast (mem_data mem (addr + 1)))"

definition mem_write16 :: "Memory \<Rightarrow> u16 \<Rightarrow> u16 \<Rightarrow> Memory" where
  "mem_write16 mem addr value =
     mem\<lparr>mem_data := (mem_data mem)(addr := ucast (value AND 0xFF), addr + 1 := ucast (drop_bit 8 value))\<rparr>"

subsection \<open>The little-endian halves of a 16-bit value\<close>

lemma le16_join [bvm_word]:
  "ucast (ucast (w AND 0xFF) :: u8) OR push_bit 8 (ucast (ucast (drop_bit 8 w) :: u8)) = (w :: u16)"
  by (rule word16_bit_eqI) (auto simp: bit_simps)

lemma le16_low [bvm_word]:
  "ucast ((ucast (lo :: u8) OR push_bit 8 (ucast (hi :: u8)) :: u16) AND 0xFF) = lo"
  by (rule bit_word_eqI) (auto simp: bit_simps)

lemma le16_high [bvm_word]:
  "ucast (drop_bit 8 (ucast (lo :: u8) OR push_bit 8 (ucast (hi :: u8)) :: u16)) = hi"
  by (rule bit_word_eqI) (auto simp: bit_simps)

lemma unat_le16:
  "unat (ucast (lo :: u8) OR push_bit 8 (ucast (hi :: u8)) :: u16) = unat lo + 256 * unat hi"
proof -
  have disj: "(ucast lo :: u16) AND push_bit 8 (ucast hi) = 0"
    by (rule word16_bit_eqI) (auto simp: bit_simps)
  have "(ucast lo OR push_bit 8 (ucast hi) :: u16) = ucast lo + push_bit 8 (ucast hi)"
    using disj by (simp add: disjunctive_add_eq_or)
  moreover have "unat (push_bit 8 (ucast hi) :: u16) = 256 * unat hi"
  proof -
    have "unat hi * 256 < 65536" using unat_lt_256 [of hi] by simp
    then show ?thesis
      by (simp add: push_bit_eq_mult unat_word_ariths)
  qed
  moreover have "unat lo + 256 * unat hi < 65536"
    using unat_lt_256 [of lo] unat_lt_256 [of hi] by simp
  ultimately show ?thesis by (simp add: unat_word_ariths)
qed

lemma word16_succ_neq [simp]: "(a :: u16) + 1 \<noteq> a" "a \<noteq> a + 1"
  by simp_all

subsection \<open>The byte memory interface\<close>

text \<open>
  What the processor, the loader and the debugger rely on: byte writes change one byte, and
  16-bit accesses are two byte accesses at \<open>a\<close> and \<open>a + 1\<close>, low byte first. The 16-bit
  laws follow from these alone.
\<close>

locale byte_memory =
  fixes rd8 :: "'m \<Rightarrow> u16 \<Rightarrow> u8"
    and wr8 :: "'m \<Rightarrow> u16 \<Rightarrow> u8 \<Rightarrow> 'm"
    and rd16 :: "'m \<Rightarrow> u16 \<Rightarrow> u16"
    and wr16 :: "'m \<Rightarrow> u16 \<Rightarrow> u16 \<Rightarrow> 'm"
  assumes rd8_wr8: "rd8 (wr8 m a v) b = (if b = a then v else rd8 m b)"
    and rd16_bytes: "rd16 m a = ucast (rd8 m a) OR push_bit 8 (ucast (rd8 m (a + 1)))"
    and wr16_bytes: "wr16 m a w = wr8 (wr8 m a (ucast (w AND 0xFF))) (a + 1) (ucast (drop_bit 8 w))"
begin

lemma rd8_wr16:
  "rd8 (wr16 m a w) b =
     (if b = a then ucast (w AND 0xFF) else if b = a + 1 then ucast (drop_bit 8 w) else rd8 m b)"
  by (simp add: wr16_bytes rd8_wr8)

lemma rd16_wr16_same: "rd16 (wr16 m a w) a = w"
  by (simp add: rd16_bytes rd8_wr16 le16_join)

lemma rd16_wr16_disjoint:
  assumes "b \<noteq> a" "b \<noteq> a + 1" "b + 1 \<noteq> a"
  shows "rd16 (wr16 m a w) b = rd16 m b"
  using assms by (simp add: rd16_bytes rd8_wr16)

lemma rd8_wr16_outside:
  assumes "b \<noteq> a" "b \<noteq> a + 1"
  shows "rd8 (wr16 m a w) b = rd8 m b"
  using assms by (simp add: rd8_wr16)

end

interpretation vm_mem: byte_memory mem_read8 mem_write8 mem_read16 mem_write16
  by unfold_locales
    (simp_all add: mem_read8_def mem_write8_def mem_read16_def mem_write16_def)

lemmas mem_laws [bvm_laws] =
  vm_mem.rd8_wr8 vm_mem.rd8_wr16 vm_mem.rd16_wr16_same

lemma mem_read8_init [simp]: "mem_read8 (mem_init mem) a = 0"
  by (simp add: mem_read8_def mem_init_def)

lemma mem_init_idem: "mem_init mem = mem_init mem'"
  by (cases mem; cases mem') (simp add: mem_init_def)

lemma mem_eqI: "(\<And>a. mem_read8 m a = mem_read8 m' a) \<Longrightarrow> m = m'"
  by (cases m; cases m') (auto simp: mem_read8_def)

lemma mem_read16_cong:
  "mem_read8 m a = mem_read8 m' a \<Longrightarrow> mem_read8 m (a + 1) = mem_read8 m' (a + 1)
    \<Longrightarrow> mem_read16 m a = mem_read16 m' a"
  by (simp add: vm_mem.rd16_bytes)

text \<open>
  C36: a 16-bit value written with mem_write16 is read back by mem_read16 at the same
  address, for every address including 0xFFFF (whose second byte is at 0x0000), and
  every other byte of memory keeps its value.
\<close>

theorem mem_write16_read16:
  "mem_read16 (mem_write16 mem a w) a = w \<and>
   (\<forall>b. b \<noteq> a \<and> b \<noteq> a + 1 \<longrightarrow> mem_read8 (mem_write16 mem a w) b = mem_read8 mem b) \<and>
   unat (mem_read16 mem a) = unat (mem_read8 mem a) + 256 * unat (mem_read8 mem (a + 1))"
  by (simp add: vm_mem.rd16_wr16_same vm_mem.rd8_wr16 vm_mem.rd16_bytes [of mem] unat_le16)

theorem mem_write16_read16_witness:
  "mem_read16 (mem_write16 (mem_init \<lparr>mem_data = (\<lambda>_. 7)\<rparr>) 0xFFFF 0x1234) 0xFFFF = 0x1234 \<and>
   mem_read8 (mem_write16 (mem_init \<lparr>mem_data = (\<lambda>_. 7)\<rparr>) 0xFFFF 0x1234) 5 = 0"
  using mem_write16_read16 [of "mem_init \<lparr>mem_data = (\<lambda>_. 7)\<rparr>" "0xFFFF" "0x1234"] by simp

end
