(* ===== verification/Bvm_Instruction.thy ===== *)
theory Bvm_Instruction
  imports Bvm_Memory
begin

text \<open>
  The instruction set and its encoding (include/bytevm/opcode.h,
  include/bytevm/instruction.h, src/instruction.c): opcodes, addressing modes, the table of
  legal modes, and the decoder.

  A C enumeration variable can hold a value that is no enumerator: the casts
  \<open>(Opcode)opcode_byte\<close> and \<open>(AddrMode)(mode_byte >> 4)\<close> make one from any byte. The
  datatypes therefore have one more constructor, which carries the value.
\<close>

datatype Opcode =
    OP_NOP | OP_MOV | OP_ADD | OP_SUB | OP_MUL | OP_DIV | OP_MOD | OP_AND | OP_OR | OP_XOR
    | OP_NOT | OP_SHL | OP_SHR | OP_LOAD | OP_STORE | OP_PUSH | OP_POP | OP_CMP | OP_JMP
    | OP_JZ | OP_JNZ | OP_JG | OP_JGE | OP_JL | OP_JLE | OP_JB | OP_JAE | OP_JA | OP_JBE
    | OP_CALL | OP_RET | OP_SYS | OP_HALT
  | OP_UNDEFINED u8

fun opcode_code :: "Opcode \<Rightarrow> u8" where
  "opcode_code OP_NOP = 0x00"
| "opcode_code OP_MOV = 0x01"
| "opcode_code OP_ADD = 0x02"
| "opcode_code OP_SUB = 0x03"
| "opcode_code OP_MUL = 0x04"
| "opcode_code OP_DIV = 0x05"
| "opcode_code OP_MOD = 0x06"
| "opcode_code OP_AND = 0x07"
| "opcode_code OP_OR = 0x08"
| "opcode_code OP_XOR = 0x09"
| "opcode_code OP_NOT = 0x0A"
| "opcode_code OP_SHL = 0x0B"
| "opcode_code OP_SHR = 0x0C"
| "opcode_code OP_LOAD = 0x0D"
| "opcode_code OP_STORE = 0x0E"
| "opcode_code OP_PUSH = 0x0F"
| "opcode_code OP_POP = 0x10"
| "opcode_code OP_CMP = 0x11"
| "opcode_code OP_JMP = 0x12"
| "opcode_code OP_JZ = 0x13"
| "opcode_code OP_JNZ = 0x14"
| "opcode_code OP_JG = 0x15"
| "opcode_code OP_JGE = 0x16"
| "opcode_code OP_JL = 0x17"
| "opcode_code OP_JLE = 0x18"
| "opcode_code OP_JB = 0x19"
| "opcode_code OP_JAE = 0x1A"
| "opcode_code OP_JA = 0x1B"
| "opcode_code OP_JBE = 0x1C"
| "opcode_code OP_CALL = 0x1D"
| "opcode_code OP_RET = 0x1E"
| "opcode_code OP_SYS = 0x1F"
| "opcode_code OP_HALT = 0xFF"
| "opcode_code (OP_UNDEFINED b) = b"

text \<open>The cast of a byte to the enumeration.\<close>

definition opcode_list :: "Opcode list" where
  "opcode_list =
     [OP_NOP, OP_MOV, OP_ADD, OP_SUB, OP_MUL, OP_DIV, OP_MOD, OP_AND, OP_OR, OP_XOR, OP_NOT,
      OP_SHL, OP_SHR, OP_LOAD, OP_STORE, OP_PUSH, OP_POP, OP_CMP, OP_JMP, OP_JZ, OP_JNZ, OP_JG,
      OP_JGE, OP_JL, OP_JLE, OP_JB, OP_JAE, OP_JA, OP_JBE, OP_CALL, OP_RET, OP_SYS, OP_HALT]"

definition opcode_cast :: "u8 \<Rightarrow> Opcode" where
  "opcode_cast b = (case find (\<lambda>x. opcode_code x = b) opcode_list of Some x \<Rightarrow> x | None \<Rightarrow> OP_UNDEFINED b)"

datatype AddrMode =
    MODE_NONE | MODE_REG | MODE_IMM16 | MODE_MEM_DIRECT | MODE_REG_INDIRECT | MODE_IMM8
  | MODE_UNDEFINED u8

fun mode_val :: "AddrMode \<Rightarrow> u8" where
  "mode_val MODE_NONE = 0"
| "mode_val MODE_REG = 1"
| "mode_val MODE_IMM16 = 2"
| "mode_val MODE_MEM_DIRECT = 3"
| "mode_val MODE_REG_INDIRECT = 4"
| "mode_val MODE_IMM8 = 5"
| "mode_val (MODE_UNDEFINED v) = v"

definition mode_cast :: "u8 \<Rightarrow> AddrMode" where
  "mode_cast v =
     (if v = 0 then MODE_NONE else if v = 1 then MODE_REG else if v = 2 then MODE_IMM16
      else if v = 3 then MODE_MEM_DIRECT else if v = 4 then MODE_REG_INDIRECT
      else if v = 5 then MODE_IMM8 else MODE_UNDEFINED v)"

text \<open>C compares enumeration values by their integer values.\<close>

instantiation AddrMode :: preorder
begin

definition less_eq_AddrMode :: "AddrMode \<Rightarrow> AddrMode \<Rightarrow> bool" where
  "less_eq_AddrMode a b \<longleftrightarrow> mode_val a \<le> mode_val b"

definition less_AddrMode :: "AddrMode \<Rightarrow> AddrMode \<Rightarrow> bool" where
  "less_AddrMode a b \<longleftrightarrow> mode_val a < mode_val b"

instance
  by standard (auto simp: less_eq_AddrMode_def less_AddrMode_def)

end

record Operand =
  op_mode :: AddrMode
  op_value :: u16

record Instruction =
  instr_opcode :: Opcode
  instr_op1 :: Operand
  instr_op2 :: Operand

subsection \<open>The legality table\<close>

type_synonym ModeMask = u8

definition MODE_BIT :: "AddrMode \<Rightarrow> ModeMask" where
  "MODE_BIT m = push_bit (unat (mode_val m)) 1"

definition MODES_NONE :: ModeMask where
  "MODES_NONE = MODE_BIT MODE_NONE"

definition MODES_REG :: ModeMask where
  "MODES_REG = MODE_BIT MODE_REG"

definition MODES_REG_IMM16 :: ModeMask where
  "MODES_REG_IMM16 = MODE_BIT MODE_REG OR MODE_BIT MODE_IMM16"

definition MODES_MEM :: ModeMask where
  "MODES_MEM = MODE_BIT MODE_MEM_DIRECT OR MODE_BIT MODE_REG_INDIRECT"

definition MODES_MEM_DIRECT :: ModeMask where
  "MODES_MEM_DIRECT = MODE_BIT MODE_MEM_DIRECT"

definition MODES_IMM8 :: ModeMask where
  "MODES_IMM8 = MODE_BIT MODE_IMM8"

record OpcodeInfo =
  info_valid :: bool
  info_op1_modes :: ModeMask
  info_op2_modes :: ModeMask

fun opcode_info :: "Opcode \<Rightarrow> OpcodeInfo" where
  "opcode_info OP_NOP = \<lparr>info_valid = True, info_op1_modes = MODES_NONE, info_op2_modes = MODES_NONE\<rparr>"
| "opcode_info OP_MOV = \<lparr>info_valid = True, info_op1_modes = MODES_REG, info_op2_modes = MODES_REG_IMM16\<rparr>"
| "opcode_info OP_ADD = \<lparr>info_valid = True, info_op1_modes = MODES_REG, info_op2_modes = MODES_REG_IMM16\<rparr>"
| "opcode_info OP_SUB = \<lparr>info_valid = True, info_op1_modes = MODES_REG, info_op2_modes = MODES_REG_IMM16\<rparr>"
| "opcode_info OP_MUL = \<lparr>info_valid = True, info_op1_modes = MODES_REG, info_op2_modes = MODES_REG_IMM16\<rparr>"
| "opcode_info OP_DIV = \<lparr>info_valid = True, info_op1_modes = MODES_REG, info_op2_modes = MODES_REG_IMM16\<rparr>"
| "opcode_info OP_MOD = \<lparr>info_valid = True, info_op1_modes = MODES_REG, info_op2_modes = MODES_REG_IMM16\<rparr>"
| "opcode_info OP_AND = \<lparr>info_valid = True, info_op1_modes = MODES_REG, info_op2_modes = MODES_REG_IMM16\<rparr>"
| "opcode_info OP_OR = \<lparr>info_valid = True, info_op1_modes = MODES_REG, info_op2_modes = MODES_REG_IMM16\<rparr>"
| "opcode_info OP_XOR = \<lparr>info_valid = True, info_op1_modes = MODES_REG, info_op2_modes = MODES_REG_IMM16\<rparr>"
| "opcode_info OP_NOT = \<lparr>info_valid = True, info_op1_modes = MODES_REG, info_op2_modes = MODES_NONE\<rparr>"
| "opcode_info OP_SHL = \<lparr>info_valid = True, info_op1_modes = MODES_REG, info_op2_modes = MODES_REG_IMM16\<rparr>"
| "opcode_info OP_SHR = \<lparr>info_valid = True, info_op1_modes = MODES_REG, info_op2_modes = MODES_REG_IMM16\<rparr>"
| "opcode_info OP_LOAD = \<lparr>info_valid = True, info_op1_modes = MODES_REG, info_op2_modes = MODES_MEM\<rparr>"
| "opcode_info OP_STORE = \<lparr>info_valid = True, info_op1_modes = MODES_MEM, info_op2_modes = MODES_REG\<rparr>"
| "opcode_info OP_PUSH = \<lparr>info_valid = True, info_op1_modes = MODES_REG_IMM16, info_op2_modes = MODES_NONE\<rparr>"
| "opcode_info OP_POP = \<lparr>info_valid = True, info_op1_modes = MODES_REG, info_op2_modes = MODES_NONE\<rparr>"
| "opcode_info OP_CMP = \<lparr>info_valid = True, info_op1_modes = MODES_REG_IMM16, info_op2_modes = MODES_REG_IMM16\<rparr>"
| "opcode_info OP_JMP = \<lparr>info_valid = True, info_op1_modes = MODES_MEM_DIRECT, info_op2_modes = MODES_NONE\<rparr>"
| "opcode_info OP_JZ = \<lparr>info_valid = True, info_op1_modes = MODES_MEM_DIRECT, info_op2_modes = MODES_NONE\<rparr>"
| "opcode_info OP_JNZ = \<lparr>info_valid = True, info_op1_modes = MODES_MEM_DIRECT, info_op2_modes = MODES_NONE\<rparr>"
| "opcode_info OP_JG = \<lparr>info_valid = True, info_op1_modes = MODES_MEM_DIRECT, info_op2_modes = MODES_NONE\<rparr>"
| "opcode_info OP_JGE = \<lparr>info_valid = True, info_op1_modes = MODES_MEM_DIRECT, info_op2_modes = MODES_NONE\<rparr>"
| "opcode_info OP_JL = \<lparr>info_valid = True, info_op1_modes = MODES_MEM_DIRECT, info_op2_modes = MODES_NONE\<rparr>"
| "opcode_info OP_JLE = \<lparr>info_valid = True, info_op1_modes = MODES_MEM_DIRECT, info_op2_modes = MODES_NONE\<rparr>"
| "opcode_info OP_JB = \<lparr>info_valid = True, info_op1_modes = MODES_MEM_DIRECT, info_op2_modes = MODES_NONE\<rparr>"
| "opcode_info OP_JAE = \<lparr>info_valid = True, info_op1_modes = MODES_MEM_DIRECT, info_op2_modes = MODES_NONE\<rparr>"
| "opcode_info OP_JA = \<lparr>info_valid = True, info_op1_modes = MODES_MEM_DIRECT, info_op2_modes = MODES_NONE\<rparr>"
| "opcode_info OP_JBE = \<lparr>info_valid = True, info_op1_modes = MODES_MEM_DIRECT, info_op2_modes = MODES_NONE\<rparr>"
| "opcode_info OP_CALL = \<lparr>info_valid = True, info_op1_modes = MODES_MEM_DIRECT, info_op2_modes = MODES_NONE\<rparr>"
| "opcode_info OP_RET = \<lparr>info_valid = True, info_op1_modes = MODES_NONE, info_op2_modes = MODES_NONE\<rparr>"
| "opcode_info OP_SYS = \<lparr>info_valid = True, info_op1_modes = MODES_IMM8, info_op2_modes = MODES_NONE\<rparr>"
| "opcode_info OP_HALT = \<lparr>info_valid = True, info_op1_modes = MODES_NONE, info_op2_modes = MODES_NONE\<rparr>"
| "opcode_info (OP_UNDEFINED b) = \<lparr>info_valid = False, info_op1_modes = 0, info_op2_modes = 0\<rparr>"

definition OPCODE_TABLE :: "u8 \<Rightarrow> OpcodeInfo" where
  "OPCODE_TABLE b = opcode_info (opcode_cast b)"

definition mode_is_known :: "AddrMode \<Rightarrow> bool" where
  "mode_is_known m \<longleftrightarrow> m \<le> MODE_IMM8"

definition mode_is_legal :: "AddrMode \<Rightarrow> ModeMask \<Rightarrow> bool" where
  "mode_is_legal m legal \<longleftrightarrow> (if \<not> mode_is_known m then False else legal AND MODE_BIT m \<noteq> 0)"

definition instruction_opcode_modes :: "Opcode \<Rightarrow> (ModeMask \<times> ModeMask) option" where
  "instruction_opcode_modes op =
     (let info = OPCODE_TABLE (opcode_code op)
      in if \<not> info_valid info then None else Some (info_op1_modes info, info_op2_modes info))"

subsection \<open>The decoder\<close>

text \<open>An error is \<^const>\<open>Inl\<close> of the result code; success also returns the advanced address.\<close>

fun decode_operand :: "Memory \<Rightarrow> u16 \<Rightarrow> AddrMode \<Rightarrow> VmResult + (Operand \<times> u16)" where
  "decode_operand mem addr MODE_NONE = Inr (\<lparr>op_mode = MODE_NONE, op_value = 0\<rparr>, addr)"
| "decode_operand mem addr MODE_REG =
     (let idx = mem_read8 mem addr
      in if idx > 7 then Inl VM_ERR_INVALID_MODE
         else Inr (\<lparr>op_mode = MODE_REG, op_value = ucast idx\<rparr>, addr + 1))"
| "decode_operand mem addr MODE_REG_INDIRECT =
     (let idx = mem_read8 mem addr
      in if idx > 7 then Inl VM_ERR_INVALID_MODE
         else Inr (\<lparr>op_mode = MODE_REG_INDIRECT, op_value = ucast idx\<rparr>, addr + 1))"
| "decode_operand mem addr MODE_IMM8 =
     Inr (\<lparr>op_mode = MODE_IMM8, op_value = ucast (mem_read8 mem addr)\<rparr>, addr + 1)"
| "decode_operand mem addr MODE_IMM16 =
     Inr (\<lparr>op_mode = MODE_IMM16, op_value = mem_read16 mem addr\<rparr>, addr + 2)"
| "decode_operand mem addr MODE_MEM_DIRECT =
     Inr (\<lparr>op_mode = MODE_MEM_DIRECT, op_value = mem_read16 mem addr\<rparr>, addr + 2)"
| "decode_operand mem addr (MODE_UNDEFINED v) = Inl VM_ERR_INVALID_MODE"

definition instruction_decode :: "Memory \<Rightarrow> u16 \<Rightarrow> VmResult + (Instruction \<times> u16)" where
  "instruction_decode mem pc =
     (let opcode_byte = mem_read8 mem pc;
          info = OPCODE_TABLE opcode_byte
      in if \<not> info_valid info then Inl VM_ERR_INVALID_OPCODE
         else
           let mode_byte = mem_read8 mem (pc + 1);
               mode1 = mode_cast (drop_bit 4 mode_byte);
               mode2 = mode_cast (mode_byte AND 0x0F);
               addr = pc + 1 + 1
           in if \<not> mode_is_legal mode1 (info_op1_modes info) then Inl VM_ERR_INVALID_MODE
              else if \<not> mode_is_legal mode2 (info_op2_modes info) then Inl VM_ERR_INVALID_MODE
              else
                case decode_operand mem addr mode1 of
                  Inl e \<Rightarrow> Inl e
                | Inr (op1, addr1) \<Rightarrow>
                    (case decode_operand mem addr1 mode2 of
                       Inl e \<Rightarrow> Inl e
                     | Inr (op2, addr2) \<Rightarrow>
                         Inr (\<lparr>instr_opcode = opcode_cast opcode_byte, instr_op1 = op1, instr_op2 = op2\<rparr>,
                              addr2)))"


subsection \<open>Casts between bytes and enumerations\<close>

lemma opcode_code_cast [simp]: "opcode_code (opcode_cast b) = b"
  by (auto simp: opcode_cast_def find_Some_iff split: option.splits)

lemma opcode_cast_code [simp]: "info_valid (opcode_info op) \<Longrightarrow> opcode_cast (opcode_code op) = op"
  by (cases op) (simp_all add: opcode_cast_def opcode_list_def)

lemma OPCODE_TABLE_code: "info_valid (opcode_info op) \<Longrightarrow> OPCODE_TABLE (opcode_code op) = opcode_info op"
  by (simp add: OPCODE_TABLE_def)

lemma mode_val_cast [simp]: "mode_val (mode_cast v) = v"
  by (simp add: mode_cast_def)

lemma mode_is_known_simps [simp]:
  "mode_is_known MODE_NONE" "mode_is_known MODE_REG" "mode_is_known MODE_IMM16"
  "mode_is_known MODE_MEM_DIRECT" "mode_is_known MODE_REG_INDIRECT" "mode_is_known MODE_IMM8"
  "mode_is_known (MODE_UNDEFINED v) \<longleftrightarrow> v \<le> 5"
  by (simp_all add: mode_is_known_def less_eq_AddrMode_def)

lemma u8_le_5: "(v :: u8) \<le> 5 \<Longrightarrow> v = 0 \<or> v = 1 \<or> v = 2 \<or> v = 3 \<or> v = 4 \<or> v = 5"
proof -
  assume "v \<le> 5"
  then have "unat v \<le> 5" by (simp add: word_le_nat_alt)
  then have "unat v = 0 \<or> unat v = 1 \<or> unat v = 2 \<or> unat v = 3 \<or> unat v = 4 \<or> unat v = 5"
    by arith
  then show ?thesis by (simp add: word_unat_eq_iff)
qed

lemma mode_cast_known: "mode_is_known (mode_cast v) \<Longrightarrow> \<not> (\<exists>u. mode_cast v = MODE_UNDEFINED u)"
  by (auto simp: mode_cast_def dest: u8_le_5 split: if_splits)

subsection \<open>The encoding as a specification\<close>

text \<open>
  The byte layout the decoder inverts: opcode byte, mode byte (operand 1 in the high nibble),
  then the operand bytes, 16-bit values low byte first. \<open>mem_has mem a bs\<close> says that memory
  holds the bytes \<open>bs\<close> from address \<open>a\<close> on, addresses wrapping at 65536.
\<close>

fun mem_has :: "Memory \<Rightarrow> u16 \<Rightarrow> u8 list \<Rightarrow> bool" where
  "mem_has mem a [] = True"
| "mem_has mem a (b # bs) = (mem_read8 mem a = b \<and> mem_has mem (a + 1) bs)"

lemma mem_has_append [simp]:
  "mem_has mem a (xs @ ys) \<longleftrightarrow> mem_has mem a xs \<and> mem_has mem (a + of_nat (length xs)) ys"
  by (induction xs arbitrary: a) (auto simp: algebra_simps)

definition encode_operand :: "Operand \<Rightarrow> u8 list" where
  "encode_operand op =
     (case op_mode op of
        MODE_NONE \<Rightarrow> []
      | MODE_REG \<Rightarrow> [ucast (op_value op)]
      | MODE_REG_INDIRECT \<Rightarrow> [ucast (op_value op)]
      | MODE_IMM8 \<Rightarrow> [ucast (op_value op)]
      | MODE_IMM16 \<Rightarrow> [ucast (op_value op AND 0xFF), ucast (drop_bit 8 (op_value op))]
      | MODE_MEM_DIRECT \<Rightarrow> [ucast (op_value op AND 0xFF), ucast (drop_bit 8 (op_value op))]
      | MODE_UNDEFINED v \<Rightarrow> [])"

definition mode_byte :: "AddrMode \<Rightarrow> AddrMode \<Rightarrow> u8" where
  "mode_byte m1 m2 = push_bit 4 (mode_val m1) OR mode_val m2"

definition encode_instruction :: "Instruction \<Rightarrow> u8 list" where
  "encode_instruction i =
     opcode_code (instr_opcode i)
     # mode_byte (op_mode (instr_op1 i)) (op_mode (instr_op2 i))
     # encode_operand (instr_op1 i) @ encode_operand (instr_op2 i)"

definition operand_wf :: "Operand \<Rightarrow> bool" where
  "operand_wf op =
     (case op_mode op of
        MODE_NONE \<Rightarrow> op_value op = 0
      | MODE_REG \<Rightarrow> op_value op \<le> 7
      | MODE_REG_INDIRECT \<Rightarrow> op_value op \<le> 7
      | MODE_IMM8 \<Rightarrow> op_value op \<le> 255
      | MODE_IMM16 \<Rightarrow> True
      | MODE_MEM_DIRECT \<Rightarrow> True
      | MODE_UNDEFINED v \<Rightarrow> False)"

definition instr_wf :: "Instruction \<Rightarrow> bool" where
  "instr_wf i \<longleftrightarrow>
     (let info = opcode_info (instr_opcode i)
      in info_valid info
         \<and> mode_is_legal (op_mode (instr_op1 i)) (info_op1_modes info)
         \<and> mode_is_legal (op_mode (instr_op2 i)) (info_op2_modes info)
         \<and> operand_wf (instr_op1 i) \<and> operand_wf (instr_op2 i))"

lemma byte_operand_iff: "v = ucast (b :: u8) \<longleftrightarrow> (v :: u16) \<le> 255 \<and> b = ucast v"
  using ucast_small [of v] ucast_le_255 [of b] by auto

lemma reg_operand_iff: "b \<le> 7 \<and> v = ucast (b :: u8) \<longleftrightarrow> (v :: u16) \<le> 7 \<and> b = ucast v"
proof -
  have "v \<le> 7 \<Longrightarrow> v \<le> 255" by (simp add: word_le_nat_alt)
  then show ?thesis
    using byte_operand_iff [of v b] ucast_le_7 [of b] by auto
qed

lemma imm16_operand_iff:
  "v = mem_read16 mem a \<longleftrightarrow>
     mem_read8 mem a = ucast (v AND 0xFF) \<and> mem_read8 mem (a + 1) = ucast (drop_bit 8 v)"
proof
  assume "v = mem_read16 mem a"
  then show "mem_read8 mem a = ucast (v AND 0xFF) \<and> mem_read8 mem (a + 1) = ucast (drop_bit 8 v)"
    by (simp only: vm_mem.rd16_bytes le16_low le16_high simp_thms)
qed (simp add: vm_mem.rd16_bytes le16_join)

lemma decode_operand_iff:
  assumes "\<not> (\<exists>u. m = MODE_UNDEFINED u)"
  shows "decode_operand mem a m = Inr (op, a') \<longleftrightarrow>
    op_mode op = m \<and> operand_wf op \<and> mem_has mem a (encode_operand op)
    \<and> a' = a + of_nat (length (encode_operand op))"
proof -
  obtain k v where op: "op = \<lparr>op_mode = k, op_value = v\<rparr>" by (cases op)
  note reg = reg_operand_iff [of "mem_read8 mem a" v]
    and imm8 = byte_operand_iff [of v "mem_read8 mem a"] and imm16 = imm16_operand_iff [of v mem a]
  show ?thesis
  proof (cases m)
    case MODE_REG
    then show ?thesis using reg by (auto simp: op operand_wf_def encode_operand_def Let_def not_less)
  next
    case MODE_REG_INDIRECT
    then show ?thesis using reg by (auto simp: op operand_wf_def encode_operand_def Let_def not_less)
  next
    case MODE_IMM8
    then show ?thesis using imm8 by (auto simp: op operand_wf_def encode_operand_def)
  next
    case MODE_IMM16
    then show ?thesis using imm16 by (auto simp: op operand_wf_def encode_operand_def)
  next
    case MODE_MEM_DIRECT
    then show ?thesis using imm16 by (auto simp: op operand_wf_def encode_operand_def)
  qed (use assms in \<open>auto simp: op operand_wf_def encode_operand_def\<close>)
qed

lemma mode_is_legal_known: "mode_is_legal m legal \<Longrightarrow> mode_is_known m"
  by (simp add: mode_is_legal_def split: if_splits)

text \<open>The two nibbles of the mode byte.\<close>

lemma nibble_join [bvm_word]: "push_bit 4 (drop_bit 4 b) OR (b AND 0x0F) = (b :: u8)"
proof (rule bit_word_eqI)
  fix n assume "n < LENGTH(8)"
  have "bit (0x0F :: int) n \<longleftrightarrow> n < 4"
  proof -
    have "(0x0F :: int) = mask 4" by (simp add: mask_eq_exp_minus_1)
    then show ?thesis by (simp only: bit_mask_iff) auto
  qed
  then show "bit (push_bit 4 (drop_bit 4 b) OR (b AND 0x0F)) n = bit b n"
    using \<open>n < LENGTH(8)\<close> by (auto simp: bit_simps)
qed

lemma mode_byte_nibbles [simp]:
  assumes "operand_wf x" "operand_wf y"
  shows "mode_cast (drop_bit 4 (mode_byte (op_mode x) (op_mode y))) = op_mode x"
    and "mode_cast (mode_byte (op_mode x) (op_mode y) AND 0x0F) = op_mode y"
  using assms
  by (cases "op_mode x"; cases "op_mode y"; simp add: mode_byte_def mode_cast_def operand_wf_def)+

lemma mode_byte_cast [simp]: "mode_byte (mode_cast (drop_bit 4 b)) (mode_cast (b AND 0x0F)) = b"
  by (simp add: mode_byte_def nibble_join)

lemma instruction_decode_iff:
  "instruction_decode mem pc = Inr (i, pc') \<longleftrightarrow>
     instr_wf i \<and> mem_has mem pc (encode_instruction i)
     \<and> pc' = pc + of_nat (length (encode_instruction i))"
proof
  assume dec: "instruction_decode mem pc = Inr (i, pc')"
  define b where "b = mem_read8 mem pc"
  define mb where "mb = mem_read8 mem (pc + 1)"
  let ?m1 = "mode_cast (drop_bit 4 mb)" and ?m2 = "mode_cast (mb AND 0x0F)"
  from dec obtain op1 op2 addr1 where
    valid: "info_valid (opcode_info (opcode_cast b))"
    and l1: "mode_is_legal ?m1 (info_op1_modes (opcode_info (opcode_cast b)))"
    and l2: "mode_is_legal ?m2 (info_op2_modes (opcode_info (opcode_cast b)))"
    and d1: "decode_operand mem (pc + 2) ?m1 = Inr (op1, addr1)"
    and d2: "decode_operand mem addr1 ?m2 = Inr (op2, pc')"
    and i: "i = \<lparr>instr_opcode = opcode_cast b, instr_op1 = op1, instr_op2 = op2\<rparr>"
    by (auto simp: instruction_decode_def Let_def b_def mb_def OPCODE_TABLE_def add.assoc
        split: if_splits sum.splits)
  note k1 = mode_cast_known [OF mode_is_legal_known [OF l1]]
    and k2 = mode_cast_known [OF mode_is_legal_known [OF l2]]
  from d1 d2 have o1: "op_mode op1 = ?m1" "operand_wf op1" "mem_has mem (pc + 2) (encode_operand op1)"
    "addr1 = pc + 2 + of_nat (length (encode_operand op1))"
    and o2: "op_mode op2 = ?m2" "operand_wf op2" "mem_has mem addr1 (encode_operand op2)"
    "pc' = addr1 + of_nat (length (encode_operand op2))"
    using decode_operand_iff [OF k1] decode_operand_iff [OF k2] by blast+
  have mb: "mem_read8 mem (1 + pc) = mb" by (simp add: mb_def add.commute)
  show "instr_wf i \<and> mem_has mem pc (encode_instruction i)
      \<and> pc' = pc + of_nat (length (encode_instruction i))"
    using valid l1 l2 o1 o2
    by (simp add: i instr_wf_def Let_def encode_instruction_def b_def [symmetric] mb add_ac)
next
  assume r: "instr_wf i \<and> mem_has mem pc (encode_instruction i)
      \<and> pc' = pc + of_nat (length (encode_instruction i))"
  then have wf: "instr_wf i" and has: "mem_has mem pc (encode_instruction i)"
    and pc': "pc' = pc + of_nat (length (encode_instruction i))" by auto
  let ?o1 = "instr_op1 i" and ?o2 = "instr_op2 i" and ?info = "opcode_info (instr_opcode i)"
  from wf have valid: "info_valid ?info" and l1: "mode_is_legal (op_mode ?o1) (info_op1_modes ?info)"
    and l2: "mode_is_legal (op_mode ?o2) (info_op2_modes ?info)"
    and w1: "operand_wf ?o1" and w2: "operand_wf ?o2"
    by (auto simp: instr_wf_def Let_def)
  have u1: "\<not> (\<exists>u. op_mode ?o1 = MODE_UNDEFINED u)" and u2: "\<not> (\<exists>u. op_mode ?o2 = MODE_UNDEFINED u)"
    using w1 w2 by (auto simp: operand_wf_def)
  from has have h: "mem_read8 mem pc = opcode_code (instr_opcode i)"
    "mem_read8 mem (pc + 1) = mode_byte (op_mode ?o1) (op_mode ?o2)"
    "mem_has mem (pc + 2) (encode_operand ?o1)"
    "mem_has mem (pc + 2 + of_nat (length (encode_operand ?o1))) (encode_operand ?o2)"
    by (simp_all add: encode_instruction_def add_ac)
  have d1: "decode_operand mem (pc + 2) (op_mode ?o1)
      = Inr (?o1, pc + 2 + of_nat (length (encode_operand ?o1)))"
    using decode_operand_iff [OF u1] w1 h(3) by blast
  have d2: "decode_operand mem (pc + 2 + of_nat (length (encode_operand ?o1))) (op_mode ?o2)
      = Inr (?o2, pc')"
    using decode_operand_iff [OF u2] w2 h(4) pc'
    by (simp add: encode_instruction_def add_ac)
  show "instruction_decode mem pc = Inr (i, pc')"
    using valid l1 l2 d1 d2
    by (simp add: instruction_decode_def Let_def h(1,2) OPCODE_TABLE_code w1 w2 add.assoc)
qed
text \<open>The legality masks as sets of modes.\<close>

lemma mode_is_legal_masks [simp]:
  assumes "operand_wf op"
  shows "mode_is_legal (op_mode op) MODES_NONE \<longleftrightarrow> op_mode op = MODE_NONE"
    and "mode_is_legal (op_mode op) MODES_REG \<longleftrightarrow> op_mode op = MODE_REG"
    and "mode_is_legal (op_mode op) MODES_REG_IMM16 \<longleftrightarrow> op_mode op = MODE_REG \<or> op_mode op = MODE_IMM16"
    and "mode_is_legal (op_mode op) MODES_MEM \<longleftrightarrow>
           op_mode op = MODE_MEM_DIRECT \<or> op_mode op = MODE_REG_INDIRECT"
    and "mode_is_legal (op_mode op) MODES_MEM_DIRECT \<longleftrightarrow> op_mode op = MODE_MEM_DIRECT"
    and "mode_is_legal (op_mode op) MODES_IMM8 \<longleftrightarrow> op_mode op = MODE_IMM8"
  using assms
  by (cases "op_mode op";
      simp add: mode_is_legal_def MODES_NONE_def MODES_REG_def MODES_REG_IMM16_def MODES_MEM_def
        MODES_MEM_DIRECT_def MODES_IMM8_def MODE_BIT_def operand_wf_def)+

lemma instr_wf_operands:
  assumes "instr_wf i"
  shows "operand_wf (instr_op1 i)" "operand_wf (instr_op2 i)"
  using assms by (auto simp: instr_wf_def Let_def)

lemma encode_length_bounds:
  "2 \<le> length (encode_instruction i)" "length (encode_instruction i) \<le> 6"
proof -
  have "length (encode_operand x) \<le> 2" for x
    by (simp add: encode_operand_def split: AddrMode.split)
  from add_le_mono [OF this this] show "length (encode_instruction i) \<le> 6"
    by (simp add: encode_instruction_def)
qed (simp add: encode_instruction_def)

lemma instruction_decode_error:
  assumes "instruction_decode mem pc = Inl e"
  shows "e = VM_ERR_INVALID_OPCODE \<and> (\<forall>i. info_valid (opcode_info i) \<longrightarrow> mem_read8 mem pc \<noteq> opcode_code i)
    \<or> e = VM_ERR_INVALID_MODE \<and> (\<exists>i. info_valid (opcode_info i) \<and> mem_read8 mem pc = opcode_code i)
        \<and> (\<forall>i. instr_wf i \<longrightarrow> \<not> mem_has mem pc (encode_instruction i))"
proof (cases "info_valid (OPCODE_TABLE (mem_read8 mem pc))")
  case False
  then have "info_valid (opcode_info i) \<Longrightarrow> mem_read8 mem pc \<noteq> opcode_code i" for i
    by (auto simp: OPCODE_TABLE_code)
  with False assms show ?thesis by (auto simp: instruction_decode_def Let_def)
next
  case True
  have "decode_operand mem a m = Inl e' \<Longrightarrow> e' = VM_ERR_INVALID_MODE" for a m e'
    by (cases m) (auto simp: Let_def split: if_splits)
  with True assms have "e = VM_ERR_INVALID_MODE"
    by (auto simp: instruction_decode_def Let_def split: if_splits sum.splits)
  moreover have "\<not> mem_has mem pc (encode_instruction i)" if "instr_wf i" for i
    using instruction_decode_iff [of mem pc i] that assms by auto
  moreover have "\<exists>i. info_valid (opcode_info i) \<and> mem_read8 mem pc = opcode_code i"
    using True by (auto simp: OPCODE_TABLE_def intro!: exI [of _ "opcode_cast (mem_read8 mem pc)"])
  ultimately show ?thesis by blast
qed

subsection \<open>The codec interface\<close>

text \<open>
  What the processor, the assembler and the disassembler rely on: decoding succeeds exactly
  on the encodings of the well-formed instructions.
\<close>

locale instruction_codec =
  fixes decode :: "'m \<Rightarrow> u16 \<Rightarrow> 'e + ('i \<times> u16)"
    and encode :: "'i \<Rightarrow> u8 list"
    and wf :: "'i \<Rightarrow> bool"
    and has :: "'m \<Rightarrow> u16 \<Rightarrow> u8 list \<Rightarrow> bool"
  assumes decode_iff:
    "decode m pc = Inr (i, pc') \<longleftrightarrow> wf i \<and> has m pc (encode i) \<and> pc' = pc + of_nat (length (encode i))"
begin

lemma decode_encoded:
  "wf i \<Longrightarrow> has m pc (encode i) \<Longrightarrow> decode m pc = Inr (i, pc + of_nat (length (encode i)))"
  by (simp add: decode_iff)

lemma decoded_wf: "decode m pc = Inr (i, pc') \<Longrightarrow> wf i"
  by (simp add: decode_iff)

lemma decoded_bytes: "decode m pc = Inr (i, pc') \<Longrightarrow> has m pc (encode i)"
  by (simp add: decode_iff)

text \<open>No two instructions can be read at one address: the encoding is prefix free.\<close>

lemma encoding_unique:
  assumes "wf i" "wf j" "has m pc (encode i)" "has m pc (encode j)"
  shows "i = j"
  using decode_encoded [OF assms(1,3)] decode_encoded [OF assms(2,4)] by simp

end

interpretation codec: instruction_codec instruction_decode encode_instruction instr_wf mem_has
  by unfold_locales (rule instruction_decode_iff)

text \<open>
  C5: the decoder is total and exact. It succeeds at an address precisely when memory holds
  there the encoding of a well-formed instruction (a defined opcode, modes legal for it,
  register indices 0-7), returns that instruction and the address after its 2 to 6 bytes;
  otherwise it reports VM_ERR_INVALID_OPCODE precisely when the first byte is no opcode, and
  VM_ERR_INVALID_MODE precisely when it is one but no well-formed instruction follows.
\<close>

theorem instruction_decode_exact:
  "(instruction_decode mem pc = Inr (i, pc') \<longleftrightarrow>
      instr_wf i \<and> mem_has mem pc (encode_instruction i)
      \<and> pc' = pc + of_nat (length (encode_instruction i))) \<and>
   (instruction_decode mem pc = Inl VM_ERR_INVALID_OPCODE \<longleftrightarrow>
      (\<nexists>op. info_valid (opcode_info op) \<and> mem_read8 mem pc = opcode_code op)) \<and>
   (instruction_decode mem pc = Inl VM_ERR_INVALID_MODE \<longleftrightarrow>
      (\<exists>op. info_valid (opcode_info op) \<and> mem_read8 mem pc = opcode_code op) \<and>
      (\<nexists>j. instr_wf j \<and> mem_has mem pc (encode_instruction j))) \<and>
   2 \<le> length (encode_instruction i) \<and> length (encode_instruction i) \<le> 6"
proof -
  have first: "\<exists>op. info_valid (opcode_info op) \<and> mem_read8 mem pc = opcode_code op"
    if "instr_wf j" "mem_has mem pc (encode_instruction j)" for j
    using that by (auto simp: instr_wf_def Let_def encode_instruction_def)
  show ?thesis
  proof (cases "instruction_decode mem pc")
    case (Inl e)
    then show ?thesis
      using instruction_decode_error [OF Inl] codec.decode_encoded [of _ mem pc]
        encode_length_bounds [of i] first by auto
  next
    case (Inr r)
    then obtain j q where r: "instruction_decode mem pc = Inr (j, q)" by (cases r) auto
    then show ?thesis
      using codec.decoded_wf [OF r] codec.decoded_bytes [OF r] instruction_decode_iff [of mem pc i pc']
        encode_length_bounds [of i] first by auto
  qed
qed

end
