(* ===== verification/Bvm_Libc.thy ===== *)
theory Bvm_Libc
  imports Bvm_Prelude
begin

text \<open>
  The parts of the C standard library the program uses, on ASCII: character classes of
  ctype.h in the "C" locale, the printf conversions \<open>%u\<close>, \<open>%d\<close>, \<open>%02X\<close> and \<open>%04X\<close>,
  truncation by snprintf, and the console streams. A \<^typ>\<open>char\<close> is one byte.
\<close>

subsection \<open>Character classes\<close>

definition is_digit :: "char \<Rightarrow> bool" where
  "is_digit c \<longleftrightarrow> 48 \<le> (of_char c :: nat) \<and> (of_char c :: nat) \<le> 57"

definition is_upper :: "char \<Rightarrow> bool" where
  "is_upper c \<longleftrightarrow> 65 \<le> (of_char c :: nat) \<and> (of_char c :: nat) \<le> 90"

definition is_lower :: "char \<Rightarrow> bool" where
  "is_lower c \<longleftrightarrow> 97 \<le> (of_char c :: nat) \<and> (of_char c :: nat) \<le> 122"

definition is_alpha :: "char \<Rightarrow> bool" where
  "is_alpha c \<longleftrightarrow> is_upper c \<or> is_lower c"

definition is_alnum :: "char \<Rightarrow> bool" where
  "is_alnum c \<longleftrightarrow> is_alpha c \<or> is_digit c"

definition is_xdigit :: "char \<Rightarrow> bool" where
  "is_xdigit c \<longleftrightarrow> is_digit c
     \<or> 65 \<le> (of_char c :: nat) \<and> (of_char c :: nat) \<le> 70
     \<or> 97 \<le> (of_char c :: nat) \<and> (of_char c :: nat) \<le> 102"

definition to_lower :: "char \<Rightarrow> char" where
  "to_lower c = (if is_upper c then char_of ((of_char c :: nat) + 32) else c)"

lemmas ctype_defs =
  is_digit_def is_upper_def is_lower_def is_alpha_def is_alnum_def is_xdigit_def to_lower_def

subsection \<open>Number output\<close>

definition digit_char :: "nat \<Rightarrow> char" where
  "digit_char d = (if d < 10 then char_of (48 + d) else char_of (55 + d))"

function show_base :: "nat \<Rightarrow> nat \<Rightarrow> string" where
  "show_base b n =
     (if b < 2 \<or> n < b then [digit_char n] else show_base b (n div b) @ [digit_char (n mod b)])"
  by pat_completeness auto
termination
  by (relation "measure snd") auto

declare show_base.simps [simp del]

text \<open>\<open>%u\<close>, \<open>%d\<close>, and \<open>%0wX\<close> (upper-case hexadecimal, zero-padded to width \<open>w\<close>).\<close>

definition fmt_u :: "nat \<Rightarrow> string" where
  "fmt_u n = show_base 10 n"

definition fmt_d :: "int \<Rightarrow> string" where
  "fmt_d i = (if i < 0 then CHR ''-'' # show_base 10 (nat (- i)) else show_base 10 (nat i))"

definition fmt_0X :: "nat \<Rightarrow> nat \<Rightarrow> string" where
  "fmt_0X w n = (let s = show_base 16 n in replicate (w - length s) CHR ''0'' @ s)"

text \<open>snprintf into a buffer of \<open>n\<close> bytes keeps at most \<open>n - 1\<close> characters.\<close>

definition snprintf :: "nat \<Rightarrow> string \<Rightarrow> string" where
  "snprintf n s = take (n - 1) s"

subsection \<open>Number values\<close>

definition digit_val :: "char \<Rightarrow> nat" where
  "digit_val c = of_char c - 48"

fun dec_value :: "nat \<Rightarrow> string \<Rightarrow> nat" where
  "dec_value acc [] = acc"
| "dec_value acc (c # cs) = dec_value (acc * 10 + digit_val c) cs"

text \<open>Decimal output is decimal input read backwards.\<close>

lemma digit_char_dec [simp]: "d < 10 \<Longrightarrow> is_digit (digit_char d)" "d < 10 \<Longrightarrow> digit_val (digit_char d) = d"
  by (simp_all add: digit_char_def is_digit_def digit_val_def)

lemma dec_value_append: "dec_value acc (xs @ ys) = dec_value (dec_value acc xs) ys"
  by (induction xs arbitrary: acc) simp_all

lemma dec_value_show_base: "dec_value 0 (show_base 10 n) = n"
proof (induction "10 :: nat" n rule: show_base.induct)
  case (1 n)
  then show ?case by (subst show_base.simps) (auto simp: dec_value_append)
qed

lemma show_base_digits: "list_all is_digit (show_base 10 n)"
proof (induction "10 :: nat" n rule: show_base.induct)
  case (1 n)
  then show ?case by (subst show_base.simps) auto
qed

lemma show_base_not_nil [simp]: "show_base b n \<noteq> []"
  by (subst show_base.simps) simp

lemma takeWhile_digits:
  assumes "list_all p xs" "rest = [] \<or> \<not> p (hd rest)"
  shows "takeWhile p (xs @ rest) = xs" "dropWhile p (xs @ rest) = rest"
  using assms by (induction xs; cases rest; simp)+

subsection \<open>The console\<close>

text \<open>Standard input is the list of characters not read yet, standard output the list of
  characters written so far.\<close>

record Host =
  host_in :: string
  host_out :: string

definition putstr :: "Host \<Rightarrow> string \<Rightarrow> Host" where
  "putstr h s = h\<lparr>host_out := host_out h @ s\<rparr>"

end
