(* ===== verification/Bvm_Vm.thy ===== *)
theory Bvm_Vm
  imports Bvm_Alu Bvm_Cpu Bvm_Instruction Bvm_Libc
begin

text \<open>
  The processor (include/bytevm/vm.h, src/vm.c): the machine state, one definition per
  \<open>exec_*\<close> function, the dispatcher and the fetch/decode/execute step.

  A C function \<open>VmResult exec_x(VM *vm, const Instruction *instr)\<close> that updates \<open>*vm\<close> is a
  function from the machine and the instruction to the result code and the new machine;
  \<^const>\<open>None\<close> is an access outside the register array. Only the SYS instruction touches the
  console, so only the dispatcher and \<open>exec_sys\<close> carry the \<^typ>\<open>Host\<close>.
\<close>

record VM =
  vm_cpu :: CPU
  vm_memory :: Memory
  vm_halted :: bool
  vm_last_error :: VmResult
  vm_error_pc :: u16
  vm_stack_limit :: u16

definition vm_init :: "VM \<Rightarrow> VM" where
  "vm_init vm = vm\<lparr>vm_cpu := cpu_init (vm_cpu vm), vm_memory := mem_init (vm_memory vm),
     vm_halted := False, vm_last_error := VM_OK, vm_error_pc := 0, vm_stack_limit := 0\<rparr>"

subsection \<open>Operands\<close>

definition operand_read :: "VM \<Rightarrow> Operand \<Rightarrow> u16 option" where
  "operand_read vm op =
     (case op_mode op of
        MODE_REG \<Rightarrow> reg_get (vm_cpu vm) (op_value op)
      | MODE_IMM16 \<Rightarrow> Some (op_value op)
      | _ \<Rightarrow> Some 0)"

definition operand_effective_address :: "VM \<Rightarrow> Operand \<Rightarrow> u16 option" where
  "operand_effective_address vm op =
     (case op_mode op of
        MODE_MEM_DIRECT \<Rightarrow> Some (op_value op)
      | MODE_REG_INDIRECT \<Rightarrow> reg_get (vm_cpu vm) (op_value op)
      | _ \<Rightarrow> Some 0)"

text \<open>The two shifts return the result and the carry that C passes by pointer.\<close>

definition shift_left :: "u16 \<Rightarrow> u16 \<Rightarrow> u16 \<times> bool" where
  "shift_left value n =
     (if n = 0 then (value, False)
      else if n > 16 then (0, False)
      else (if n = 16 then 0 else push_bit (unat n) value,
            drop_bit (16 - unat n) value AND 1 \<noteq> 0))"

definition shift_right :: "u16 \<Rightarrow> u16 \<Rightarrow> u16 \<times> bool" where
  "shift_right value n =
     (if n = 0 then (value, False)
      else if n > 16 then (0, False)
      else (if n = 16 then 0 else drop_bit (unat n) value,
            drop_bit (unat n - 1) value AND 1 \<noteq> 0))"

subsection \<open>Data movement\<close>

definition exec_mov :: "VM \<Rightarrow> Instruction \<Rightarrow> (VmResult \<times> VM) option" where
  "exec_mov vm instr = do {
     v \<leftarrow> operand_read vm (instr_op2 instr);
     cpu \<leftarrow> reg_set (vm_cpu vm) (op_value (instr_op1 instr)) v;
     Some (VM_OK, vm\<lparr>vm_cpu := cpu\<rparr>)
   }"

definition exec_load :: "VM \<Rightarrow> Instruction \<Rightarrow> (VmResult \<times> VM) option" where
  "exec_load vm instr = do {
     addr \<leftarrow> operand_effective_address vm (instr_op2 instr);
     cpu \<leftarrow> reg_set (vm_cpu vm) (op_value (instr_op1 instr)) (mem_read16 (vm_memory vm) addr);
     Some (VM_OK, vm\<lparr>vm_cpu := cpu\<rparr>)
   }"

definition exec_store :: "VM \<Rightarrow> Instruction \<Rightarrow> (VmResult \<times> VM) option" where
  "exec_store vm instr = do {
     addr \<leftarrow> operand_effective_address vm (instr_op1 instr);
     val \<leftarrow> reg_get (vm_cpu vm) (op_value (instr_op2 instr));
     Some (VM_OK, vm\<lparr>vm_memory := mem_write16 (vm_memory vm) addr val\<rparr>)
   }"

subsection \<open>Arithmetic\<close>

definition exec_add :: "VM \<Rightarrow> Instruction \<Rightarrow> (VmResult \<times> VM) option" where
  "exec_add vm instr = do {
     a \<leftarrow> reg_get (vm_cpu vm) (op_value (instr_op1 instr));
     b \<leftarrow> operand_read vm (instr_op2 instr);
     let sum = (ucast a :: u32) + ucast b;
     let result = (ucast sum :: u16);
     let cpu = cpu_set_flag (vm_cpu vm) CPU_FLAG_C (drop_bit 16 sum \<noteq> 0);
     let cpu = cpu_set_flag cpu CPU_FLAG_O ((a XOR result) AND (b XOR result) AND 0x8000 \<noteq> 0);
     let cpu = cpu_set_flag cpu CPU_FLAG_Z (result = 0);
     let cpu = cpu_set_flag cpu CPU_FLAG_S (result AND 0x8000 \<noteq> 0);
     cpu \<leftarrow> reg_set cpu (op_value (instr_op1 instr)) result;
     Some (VM_OK, vm\<lparr>vm_cpu := cpu\<rparr>)
   }"

definition exec_sub :: "VM \<Rightarrow> Instruction \<Rightarrow> (VmResult \<times> VM) option" where
  "exec_sub vm instr = do {
     a \<leftarrow> reg_get (vm_cpu vm) (op_value (instr_op1 instr));
     b \<leftarrow> operand_read vm (instr_op2 instr);
     let result = a - b;
     let cpu = cpu_set_flag (vm_cpu vm) CPU_FLAG_C (a < b);
     let cpu = cpu_set_flag cpu CPU_FLAG_O ((a XOR b) AND (a XOR result) AND 0x8000 \<noteq> 0);
     let cpu = cpu_set_flag cpu CPU_FLAG_Z (result = 0);
     let cpu = cpu_set_flag cpu CPU_FLAG_S (result AND 0x8000 \<noteq> 0);
     cpu \<leftarrow> reg_set cpu (op_value (instr_op1 instr)) result;
     Some (VM_OK, vm\<lparr>vm_cpu := cpu\<rparr>)
   }"

text \<open>The signed product of two \<open>int16_t\<close> values fits an \<open>int32_t\<close>, so it is an integer.\<close>

definition exec_mul :: "VM \<Rightarrow> Instruction \<Rightarrow> (VmResult \<times> VM) option" where
  "exec_mul vm instr = do {
     a \<leftarrow> reg_get (vm_cpu vm) (op_value (instr_op1 instr));
     b \<leftarrow> operand_read vm (instr_op2 instr);
     let product = (ucast a :: u32) * ucast b;
     let result = (ucast (product AND 0xFFFF) :: u16);
     let signed_product = sint a * sint b;
     let cpu = cpu_set_flag (vm_cpu vm) CPU_FLAG_C (drop_bit 16 product \<noteq> 0);
     let cpu = cpu_set_flag cpu CPU_FLAG_O (signed_product < -32768 \<or> signed_product > 32767);
     let cpu = cpu_set_flag cpu CPU_FLAG_Z (result = 0);
     let cpu = cpu_set_flag cpu CPU_FLAG_S (result AND 0x8000 \<noteq> 0);
     cpu \<leftarrow> reg_set cpu (op_value (instr_op1 instr)) result;
     Some (VM_OK, vm\<lparr>vm_cpu := cpu\<rparr>)
   }"

definition exec_div :: "VM \<Rightarrow> Instruction \<Rightarrow> (VmResult \<times> VM) option" where
  "exec_div vm instr = do {
     a \<leftarrow> reg_get (vm_cpu vm) (op_value (instr_op1 instr));
     b \<leftarrow> operand_read vm (instr_op2 instr);
     if b = 0 then Some (VM_ERR_DIV_BY_ZERO, vm)
     else do {
       let result = a div b;
       let cpu = cpu_set_flag (vm_cpu vm) CPU_FLAG_Z (result = 0);
       let cpu = cpu_set_flag cpu CPU_FLAG_S (result AND 0x8000 \<noteq> 0);
       cpu \<leftarrow> reg_set cpu (op_value (instr_op1 instr)) result;
       Some (VM_OK, vm\<lparr>vm_cpu := cpu\<rparr>)
     }
   }"

definition exec_mod :: "VM \<Rightarrow> Instruction \<Rightarrow> (VmResult \<times> VM) option" where
  "exec_mod vm instr = do {
     a \<leftarrow> reg_get (vm_cpu vm) (op_value (instr_op1 instr));
     b \<leftarrow> operand_read vm (instr_op2 instr);
     if b = 0 then Some (VM_ERR_DIV_BY_ZERO, vm)
     else do {
       let result = a mod b;
       let cpu = cpu_set_flag (vm_cpu vm) CPU_FLAG_Z (result = 0);
       let cpu = cpu_set_flag cpu CPU_FLAG_S (result AND 0x8000 \<noteq> 0);
       cpu \<leftarrow> reg_set cpu (op_value (instr_op1 instr)) result;
       Some (VM_OK, vm\<lparr>vm_cpu := cpu\<rparr>)
     }
   }"

subsection \<open>Bitwise operations and shifts\<close>

definition exec_and :: "VM \<Rightarrow> Instruction \<Rightarrow> (VmResult \<times> VM) option" where
  "exec_and vm instr = do {
     a \<leftarrow> reg_get (vm_cpu vm) (op_value (instr_op1 instr));
     b \<leftarrow> operand_read vm (instr_op2 instr);
     let result = a AND b;
     let cpu = cpu_set_flag (vm_cpu vm) CPU_FLAG_Z (result = 0);
     let cpu = cpu_set_flag cpu CPU_FLAG_S (result AND 0x8000 \<noteq> 0);
     cpu \<leftarrow> reg_set cpu (op_value (instr_op1 instr)) result;
     Some (VM_OK, vm\<lparr>vm_cpu := cpu\<rparr>)
   }"

definition exec_or :: "VM \<Rightarrow> Instruction \<Rightarrow> (VmResult \<times> VM) option" where
  "exec_or vm instr = do {
     a \<leftarrow> reg_get (vm_cpu vm) (op_value (instr_op1 instr));
     b \<leftarrow> operand_read vm (instr_op2 instr);
     let result = a OR b;
     let cpu = cpu_set_flag (vm_cpu vm) CPU_FLAG_Z (result = 0);
     let cpu = cpu_set_flag cpu CPU_FLAG_S (result AND 0x8000 \<noteq> 0);
     cpu \<leftarrow> reg_set cpu (op_value (instr_op1 instr)) result;
     Some (VM_OK, vm\<lparr>vm_cpu := cpu\<rparr>)
   }"

definition exec_xor :: "VM \<Rightarrow> Instruction \<Rightarrow> (VmResult \<times> VM) option" where
  "exec_xor vm instr = do {
     a \<leftarrow> reg_get (vm_cpu vm) (op_value (instr_op1 instr));
     b \<leftarrow> operand_read vm (instr_op2 instr);
     let result = a XOR b;
     let cpu = cpu_set_flag (vm_cpu vm) CPU_FLAG_Z (result = 0);
     let cpu = cpu_set_flag cpu CPU_FLAG_S (result AND 0x8000 \<noteq> 0);
     cpu \<leftarrow> reg_set cpu (op_value (instr_op1 instr)) result;
     Some (VM_OK, vm\<lparr>vm_cpu := cpu\<rparr>)
   }"

definition exec_not :: "VM \<Rightarrow> Instruction \<Rightarrow> (VmResult \<times> VM) option" where
  "exec_not vm instr = do {
     a \<leftarrow> reg_get (vm_cpu vm) (op_value (instr_op1 instr));
     let result = NOT a;
     let cpu = cpu_set_flag (vm_cpu vm) CPU_FLAG_Z (result = 0);
     let cpu = cpu_set_flag cpu CPU_FLAG_S (result AND 0x8000 \<noteq> 0);
     cpu \<leftarrow> reg_set cpu (op_value (instr_op1 instr)) result;
     Some (VM_OK, vm\<lparr>vm_cpu := cpu\<rparr>)
   }"

definition exec_shl :: "VM \<Rightarrow> Instruction \<Rightarrow> (VmResult \<times> VM) option" where
  "exec_shl vm instr = do {
     a \<leftarrow> reg_get (vm_cpu vm) (op_value (instr_op1 instr));
     n \<leftarrow> operand_read vm (instr_op2 instr);
     let (result, carry) = shift_left a n;
     let cpu = cpu_set_flag (vm_cpu vm) CPU_FLAG_C carry;
     let cpu = cpu_set_flag cpu CPU_FLAG_Z (result = 0);
     let cpu = cpu_set_flag cpu CPU_FLAG_S (result AND 0x8000 \<noteq> 0);
     cpu \<leftarrow> reg_set cpu (op_value (instr_op1 instr)) result;
     Some (VM_OK, vm\<lparr>vm_cpu := cpu\<rparr>)
   }"

definition exec_shr :: "VM \<Rightarrow> Instruction \<Rightarrow> (VmResult \<times> VM) option" where
  "exec_shr vm instr = do {
     a \<leftarrow> reg_get (vm_cpu vm) (op_value (instr_op1 instr));
     n \<leftarrow> operand_read vm (instr_op2 instr);
     let (result, carry) = shift_right a n;
     let cpu = cpu_set_flag (vm_cpu vm) CPU_FLAG_C carry;
     let cpu = cpu_set_flag cpu CPU_FLAG_Z (result = 0);
     let cpu = cpu_set_flag cpu CPU_FLAG_S (result AND 0x8000 \<noteq> 0);
     cpu \<leftarrow> reg_set cpu (op_value (instr_op1 instr)) result;
     Some (VM_OK, vm\<lparr>vm_cpu := cpu\<rparr>)
   }"

subsection \<open>Comparison\<close>

definition exec_cmp :: "VM \<Rightarrow> Instruction \<Rightarrow> (VmResult \<times> VM) option" where
  "exec_cmp vm instr = do {
     a \<leftarrow> operand_read vm (instr_op1 instr);
     b \<leftarrow> operand_read vm (instr_op2 instr);
     let result = a - b;
     let cpu = cpu_set_flag (vm_cpu vm) CPU_FLAG_C (a < b);
     let cpu = cpu_set_flag cpu CPU_FLAG_O ((a XOR b) AND (a XOR result) AND 0x8000 \<noteq> 0);
     let cpu = cpu_set_flag cpu CPU_FLAG_Z (result = 0);
     let cpu = cpu_set_flag cpu CPU_FLAG_S (result AND 0x8000 \<noteq> 0);
     Some (VM_OK, vm\<lparr>vm_cpu := cpu\<rparr>)
   }"

subsection \<open>Control flow\<close>

abbreviation set_pc :: "VM \<Rightarrow> u16 \<Rightarrow> VM" where
  "set_pc vm a \<equiv> vm\<lparr>vm_cpu := (vm_cpu vm)\<lparr>cpu_pc := a\<rparr>\<rparr>"

definition exec_jmp :: "VM \<Rightarrow> Instruction \<Rightarrow> (VmResult \<times> VM) option" where
  "exec_jmp vm instr = Some (VM_OK, set_pc vm (op_value (instr_op1 instr)))"

definition exec_jz :: "VM \<Rightarrow> Instruction \<Rightarrow> (VmResult \<times> VM) option" where
  "exec_jz vm instr =
     (if cpu_get_flag (vm_cpu vm) CPU_FLAG_Z then Some (VM_OK, set_pc vm (op_value (instr_op1 instr))) else Some (VM_OK, vm))"

definition exec_jnz :: "VM \<Rightarrow> Instruction \<Rightarrow> (VmResult \<times> VM) option" where
  "exec_jnz vm instr =
     (if \<not> cpu_get_flag (vm_cpu vm) CPU_FLAG_Z then Some (VM_OK, set_pc vm (op_value (instr_op1 instr))) else Some (VM_OK, vm))"

definition exec_jg :: "VM \<Rightarrow> Instruction \<Rightarrow> (VmResult \<times> VM) option" where
  "exec_jg vm instr =
     (let z = cpu_get_flag (vm_cpu vm) CPU_FLAG_Z;
          s = cpu_get_flag (vm_cpu vm) CPU_FLAG_S;
          o' = cpu_get_flag (vm_cpu vm) CPU_FLAG_O
      in if \<not> z \<and> s = o' then Some (VM_OK, set_pc vm (op_value (instr_op1 instr))) else Some (VM_OK, vm))"

definition exec_jge :: "VM \<Rightarrow> Instruction \<Rightarrow> (VmResult \<times> VM) option" where
  "exec_jge vm instr =
     (let s = cpu_get_flag (vm_cpu vm) CPU_FLAG_S;
          o' = cpu_get_flag (vm_cpu vm) CPU_FLAG_O
      in if s = o' then Some (VM_OK, set_pc vm (op_value (instr_op1 instr))) else Some (VM_OK, vm))"

definition exec_jl :: "VM \<Rightarrow> Instruction \<Rightarrow> (VmResult \<times> VM) option" where
  "exec_jl vm instr =
     (let s = cpu_get_flag (vm_cpu vm) CPU_FLAG_S;
          o' = cpu_get_flag (vm_cpu vm) CPU_FLAG_O
      in if s \<noteq> o' then Some (VM_OK, set_pc vm (op_value (instr_op1 instr))) else Some (VM_OK, vm))"

definition exec_jle :: "VM \<Rightarrow> Instruction \<Rightarrow> (VmResult \<times> VM) option" where
  "exec_jle vm instr =
     (let z = cpu_get_flag (vm_cpu vm) CPU_FLAG_Z;
          s = cpu_get_flag (vm_cpu vm) CPU_FLAG_S;
          o' = cpu_get_flag (vm_cpu vm) CPU_FLAG_O
      in if z \<or> s \<noteq> o' then Some (VM_OK, set_pc vm (op_value (instr_op1 instr))) else Some (VM_OK, vm))"

definition exec_jb :: "VM \<Rightarrow> Instruction \<Rightarrow> (VmResult \<times> VM) option" where
  "exec_jb vm instr =
     (if cpu_get_flag (vm_cpu vm) CPU_FLAG_C then Some (VM_OK, set_pc vm (op_value (instr_op1 instr))) else Some (VM_OK, vm))"

definition exec_jae :: "VM \<Rightarrow> Instruction \<Rightarrow> (VmResult \<times> VM) option" where
  "exec_jae vm instr =
     (if \<not> cpu_get_flag (vm_cpu vm) CPU_FLAG_C then Some (VM_OK, set_pc vm (op_value (instr_op1 instr))) else Some (VM_OK, vm))"

definition exec_ja :: "VM \<Rightarrow> Instruction \<Rightarrow> (VmResult \<times> VM) option" where
  "exec_ja vm instr =
     (let c = cpu_get_flag (vm_cpu vm) CPU_FLAG_C;
          z = cpu_get_flag (vm_cpu vm) CPU_FLAG_Z
      in if \<not> c \<and> \<not> z then Some (VM_OK, set_pc vm (op_value (instr_op1 instr))) else Some (VM_OK, vm))"

definition exec_jbe :: "VM \<Rightarrow> Instruction \<Rightarrow> (VmResult \<times> VM) option" where
  "exec_jbe vm instr =
     (let c = cpu_get_flag (vm_cpu vm) CPU_FLAG_C;
          z = cpu_get_flag (vm_cpu vm) CPU_FLAG_Z
      in if c \<or> z then Some (VM_OK, set_pc vm (op_value (instr_op1 instr))) else Some (VM_OK, vm))"

subsection \<open>The stack\<close>

definition exec_push :: "VM \<Rightarrow> Instruction \<Rightarrow> (VmResult \<times> VM) option" where
  "exec_push vm instr = do {
     value \<leftarrow> operand_read vm (instr_op1 instr);
     let sp = cpu_sp (vm_cpu vm);
     if sp < 2 \<or> sp - 2 < vm_stack_limit vm then Some (VM_ERR_STACK_OVERFLOW, vm)
     else Some (VM_OK, vm\<lparr>vm_memory := mem_write16 (vm_memory vm) sp value,
                          vm_cpu := (vm_cpu vm)\<lparr>cpu_sp := sp - 2\<rparr>\<rparr>)
   }"

definition exec_pop :: "VM \<Rightarrow> Instruction \<Rightarrow> (VmResult \<times> VM) option" where
  "exec_pop vm instr =
     (if cpu_sp (vm_cpu vm) = CPU_INITIAL_SP then Some (VM_ERR_STACK_UNDERFLOW, vm)
      else do {
        let new_sp = cpu_sp (vm_cpu vm) + 2;
        cpu \<leftarrow> reg_set (vm_cpu vm) (op_value (instr_op1 instr)) (mem_read16 (vm_memory vm) new_sp);
        Some (VM_OK, vm\<lparr>vm_cpu := cpu\<lparr>cpu_sp := new_sp\<rparr>\<rparr>)
      })"

definition exec_call :: "VM \<Rightarrow> Instruction \<Rightarrow> (VmResult \<times> VM) option" where
  "exec_call vm instr =
     (let sp = cpu_sp (vm_cpu vm)
      in if sp < 2 \<or> sp - 2 < vm_stack_limit vm then Some (VM_ERR_STACK_OVERFLOW, vm)
         else Some (VM_OK, vm\<lparr>vm_memory := mem_write16 (vm_memory vm) sp (cpu_pc (vm_cpu vm)),
                              vm_cpu := (vm_cpu vm)\<lparr>cpu_sp := sp - 2,
                                                    cpu_pc := op_value (instr_op1 instr)\<rparr>\<rparr>))"

definition exec_ret :: "VM \<Rightarrow> Instruction \<Rightarrow> (VmResult \<times> VM) option" where
  "exec_ret vm instr =
     (if cpu_sp (vm_cpu vm) = CPU_INITIAL_SP then Some (VM_ERR_STACK_UNDERFLOW, vm)
      else
        let new_sp = cpu_sp (vm_cpu vm) + 2
        in Some (VM_OK, vm\<lparr>vm_cpu := (vm_cpu vm)\<lparr>cpu_pc := mem_read16 (vm_memory vm) new_sp,
                                                  cpu_sp := new_sp\<rparr>\<rparr>))"

subsection \<open>System calls\<close>

text \<open>
  \<open>read_int_from_stdin\<close>: a character that has been read is \<^term>\<open>Some c\<close>, end of file
  \<^const>\<open>None\<close>; each loop of the C function is one recursive function over the unread input.
  \<open>unsigned long\<close> is 64 bits wide.
\<close>

definition is_input_space :: "char \<Rightarrow> bool" where
  "is_input_space c \<longleftrightarrow> (of_char c :: nat) \<in> {32, 9, 10, 13, 11, 12}"

fun read_skip_spaces :: "string \<Rightarrow> char option \<times> string" where
  "read_skip_spaces [] = (None, [])"
| "read_skip_spaces (c # cs) = (if is_input_space c then read_skip_spaces cs else (Some c, cs))"

definition getchar :: "string \<Rightarrow> char option \<times> string" where
  "getchar cs = (case cs of [] \<Rightarrow> (None, []) | c # cs' \<Rightarrow> (Some c, cs'))"

function read_digits :: "char option \<Rightarrow> string \<Rightarrow> bool \<Rightarrow> u64 \<Rightarrow> char option \<times> string \<times> bool \<times> u64" where
  "read_digits c cs has_digit magnitude =
     (case c of
        None \<Rightarrow> (None, cs, has_digit, magnitude)
      | Some d \<Rightarrow>
          if is_digit d then
            let (c', cs') = getchar cs
            in read_digits c' cs' True (magnitude * 10 + of_nat (digit_val d))
          else (c, cs, has_digit, magnitude))"
  by pat_completeness auto
termination
  by (relation "measure (\<lambda>(c, cs, h, m). length cs + (if c = None then 0 else 1))")
    (auto simp: getchar_def split: list.splits)

declare read_digits.simps [simp del]

definition read_int_from_stdin :: "Host \<Rightarrow> u16 \<times> Host" where
  "read_int_from_stdin h =
     (let (c, cs) = read_skip_spaces (host_in h);
          negative = (c = Some CHR ''-'');
          (c, cs) = (if negative then getchar cs else (c, cs));
          (c, cs, has_digit, magnitude) = read_digits c cs False 0;
          h' = h\<lparr>host_in := (case c of None \<Rightarrow> cs | Some d \<Rightarrow> d # cs)\<rparr>
      in if \<not> has_digit then (0, h')
         else
           let low16 = (ucast (magnitude AND 0xFFFF) :: u16)
           in (if negative then 0 - low16 else low16, h'))"

definition exec_sys :: "VM \<Rightarrow> Host \<Rightarrow> Instruction \<Rightarrow> (VmResult \<times> VM \<times> Host) option" where
  "exec_sys vm h instr =
     (let code = op_value (instr_op1 instr)
      in if code = 0x01 then do {
           r0 \<leftarrow> reg_get (vm_cpu vm) 0;
           Some (VM_OK, vm, putstr h (fmt_d (sint r0)))
         }
         else if code = 0x02 then do {
           r0 \<leftarrow> reg_get (vm_cpu vm) 0;
           Some (VM_OK, vm, putstr h [char_of (unat (r0 AND 0xFF))])
         }
         else if code = 0x03 then do {
           let (v, h') = read_int_from_stdin h;
           cpu \<leftarrow> reg_set (vm_cpu vm) 0 v;
           Some (VM_OK, vm\<lparr>vm_cpu := cpu\<rparr>, h')
         }
         else if code = 0x04 then Some (VM_OK, vm\<lparr>vm_halted := True\<rparr>, h)
         else Some (VM_ERR_INVALID_SYSCALL, vm, h))"

subsection \<open>Dispatch and step\<close>

text \<open>The instructions other than SYS leave the console alone.\<close>

definition with_host :: "Host \<Rightarrow> (VmResult \<times> VM) option \<Rightarrow> (VmResult \<times> VM \<times> Host) option" where
  "with_host h m = map_option (\<lambda>(res, vm). (res, vm, h)) m"

definition instruction_execute :: "VM \<Rightarrow> Host \<Rightarrow> Instruction \<Rightarrow> (VmResult \<times> VM \<times> Host) option" where
  "instruction_execute vm h instr =
     (case instr_opcode instr of
        OP_NOP \<Rightarrow> Some (VM_OK, vm, h)
      | OP_MOV \<Rightarrow> with_host h (exec_mov vm instr)
      | OP_ADD \<Rightarrow> with_host h (exec_add vm instr)
      | OP_SUB \<Rightarrow> with_host h (exec_sub vm instr)
      | OP_MUL \<Rightarrow> with_host h (exec_mul vm instr)
      | OP_DIV \<Rightarrow> with_host h (exec_div vm instr)
      | OP_MOD \<Rightarrow> with_host h (exec_mod vm instr)
      | OP_AND \<Rightarrow> with_host h (exec_and vm instr)
      | OP_OR \<Rightarrow> with_host h (exec_or vm instr)
      | OP_XOR \<Rightarrow> with_host h (exec_xor vm instr)
      | OP_NOT \<Rightarrow> with_host h (exec_not vm instr)
      | OP_SHL \<Rightarrow> with_host h (exec_shl vm instr)
      | OP_SHR \<Rightarrow> with_host h (exec_shr vm instr)
      | OP_LOAD \<Rightarrow> with_host h (exec_load vm instr)
      | OP_STORE \<Rightarrow> with_host h (exec_store vm instr)
      | OP_PUSH \<Rightarrow> with_host h (exec_push vm instr)
      | OP_POP \<Rightarrow> with_host h (exec_pop vm instr)
      | OP_CMP \<Rightarrow> with_host h (exec_cmp vm instr)
      | OP_JMP \<Rightarrow> with_host h (exec_jmp vm instr)
      | OP_JZ \<Rightarrow> with_host h (exec_jz vm instr)
      | OP_JNZ \<Rightarrow> with_host h (exec_jnz vm instr)
      | OP_JG \<Rightarrow> with_host h (exec_jg vm instr)
      | OP_JGE \<Rightarrow> with_host h (exec_jge vm instr)
      | OP_JL \<Rightarrow> with_host h (exec_jl vm instr)
      | OP_JLE \<Rightarrow> with_host h (exec_jle vm instr)
      | OP_JB \<Rightarrow> with_host h (exec_jb vm instr)
      | OP_JAE \<Rightarrow> with_host h (exec_jae vm instr)
      | OP_JA \<Rightarrow> with_host h (exec_ja vm instr)
      | OP_JBE \<Rightarrow> with_host h (exec_jbe vm instr)
      | OP_CALL \<Rightarrow> with_host h (exec_call vm instr)
      | OP_RET \<Rightarrow> with_host h (exec_ret vm instr)
      | OP_SYS \<Rightarrow> exec_sys vm h instr
      | OP_HALT \<Rightarrow> Some (VM_OK, vm\<lparr>vm_halted := True\<rparr>, h)
      | OP_UNDEFINED b \<Rightarrow> Some (VM_ERR_INVALID_OPCODE, vm, h))"

definition vm_step :: "VM \<Rightarrow> Host \<Rightarrow> (VmResult \<times> VM \<times> Host) option" where
  "vm_step vm h =
     (if vm_halted vm then Some (vm_last_error vm, vm, h)
      else do {
        let fault_pc = cpu_pc (vm_cpu vm);
        (result, vm, h) \<leftarrow>
          (case instruction_decode (vm_memory vm) (cpu_pc (vm_cpu vm)) of
             Inl e \<Rightarrow> Some (e, vm, h)
           | Inr (instr, pc') \<Rightarrow> instruction_execute (set_pc vm pc') h instr);
        let vm = (if result \<noteq> VM_OK
                  then vm\<lparr>vm_halted := True, vm_last_error := result, vm_error_pc := fault_pc\<rparr>
                  else vm);
        Some (result, vm, h)
      })"

end
