(* ===== verification/Bvm_Exec.thy ===== *)
theory Bvm_Exec
  imports Bvm_Vm
begin

text \<open>
  Correctness of the instructions of src/vm.c: the shifts, the arithmetic and logic unit
  against a specification over the integers, the machine invariant and its preservation by
  every instruction and by a step, the comparison flags and the conditional jumps, and the
  integer input of \<open>SYS READ_INT\<close>.
\<close>

unbundle bit_operations_syntax

subsection \<open>Shifts\<close>

text \<open>Every branch of the shift routines is the shift of the 16-bit word, any count.\<close>

lemma shift_left_result: "fst (shift_left v n) = push_bit (unat n) v"
proof -
  have "push_bit (unat n) v = 0" if "16 \<le> n"
    using that by (intro word16_bit_eqI) (auto simp: bit_simps word_le_nat_alt)
  then show ?thesis by (auto simp: shift_left_def)
qed

lemma shift_right_result: "fst (shift_right v n) = drop_bit (unat n) v"
proof -
  have "drop_bit (unat n) v = 0" if "16 \<le> n"
    using that by (intro word16_bit_eqI) (auto simp: bit_simps word_le_nat_alt)
  then show ?thesis by (auto simp: shift_right_def)
qed

lemma shift_left_carry:
  "snd (shift_left v n) \<longleftrightarrow> 1 \<le> unat n \<and> unat n \<le> 16 \<and> bit v (16 - unat n)"
  by (auto simp: shift_left_def word_less_nat_alt word_unat_eq_iff [of n] and_one_eq
      bit_iff_odd_drop_bit odd_iff_mod_2_eq_one)

lemma shift_right_carry:
  "snd (shift_right v n) \<longleftrightarrow> 1 \<le> unat n \<and> unat n \<le> 16 \<and> bit v (unat n - 1)"
  by (auto simp: shift_right_def word_less_nat_alt word_unat_eq_iff [of n] and_one_eq
      bit_iff_odd_drop_bit odd_iff_mod_2_eq_one)

subsection \<open>Register access in range\<close>

lemma reg_index_lt: "(i :: u16) \<le> 7 \<Longrightarrow> unat i < 8"
  by (simp add: word_le_nat_alt)

lemma reg_get_in_range [simp]:
  "length (cpu_r c) = 8 \<Longrightarrow> i \<le> 7 \<Longrightarrow> reg_get c i = Some (cpu_r c ! unat i)"
  using reg_index_lt [of i] by (simp add: reg_get_def)

lemma reg_set_in_range [simp]:
  "length (cpu_r c) = 8 \<Longrightarrow> i \<le> 7 \<Longrightarrow> reg_set c i v = Some (c\<lparr>cpu_r := (cpu_r c)[unat i := v]\<rparr>)"
  using reg_index_lt [of i] by (simp add: reg_set_def)

subsection \<open>The arithmetic and logic unit against its specification\<close>

text \<open>
  The specification of the two-operand register instructions, over the integers: the result
  of \<open>dst op src\<close> and the flags it defines (\<^const>\<open>None\<close>: the flag keeps its value).
\<close>

fun alu_result :: "Opcode \<Rightarrow> u16 \<Rightarrow> u16 \<Rightarrow> u16" where
  "alu_result OP_ADD a b = word_of_int (uint a + uint b)"
| "alu_result OP_SUB a b = word_of_int (uint a - uint b)"
| "alu_result OP_MUL a b = word_of_int (uint a * uint b)"
| "alu_result OP_DIV a b = word_of_int (uint a div uint b)"
| "alu_result OP_MOD a b = word_of_int (uint a mod uint b)"
| "alu_result OP_AND a b = a AND b"
| "alu_result OP_OR a b = a OR b"
| "alu_result OP_XOR a b = a XOR b"
| "alu_result OP_NOT a b = NOT a"
| "alu_result OP_SHL a b = word_of_int (uint a * 2 ^ unat b)"
| "alu_result OP_SHR a b = word_of_int (uint a div 2 ^ unat b)"
| "alu_result _ a b = a"

definition out_of_int16 :: "int \<Rightarrow> bool" where
  "out_of_int16 x \<longleftrightarrow> x < -32768 \<or> 32767 < x"

fun alu_carry :: "Opcode \<Rightarrow> u16 \<Rightarrow> u16 \<Rightarrow> bool option" where
  "alu_carry OP_ADD a b = Some (65536 \<le> uint a + uint b)"
| "alu_carry OP_SUB a b = Some (uint a < uint b)"
| "alu_carry OP_MUL a b = Some (65536 \<le> uint a * uint b)"
| "alu_carry OP_SHL a b = Some (1 \<le> unat b \<and> unat b \<le> 16 \<and> bit a (16 - unat b))"
| "alu_carry OP_SHR a b = Some (1 \<le> unat b \<and> unat b \<le> 16 \<and> bit a (unat b - 1))"
| "alu_carry _ a b = None"

fun alu_overflow :: "Opcode \<Rightarrow> u16 \<Rightarrow> u16 \<Rightarrow> bool option" where
  "alu_overflow OP_ADD a b = Some (out_of_int16 (sint a + sint b))"
| "alu_overflow OP_SUB a b = Some (out_of_int16 (sint a - sint b))"
| "alu_overflow OP_MUL a b = Some (out_of_int16 (sint a * sint b))"
| "alu_overflow _ a b = None"

fun alu_flag :: "Opcode \<Rightarrow> u16 \<Rightarrow> u16 \<Rightarrow> CpuFlagBit \<Rightarrow> bool option" where
  "alu_flag op a b CPU_FLAG_Z = Some (alu_result op a b = 0)"
| "alu_flag op a b CPU_FLAG_S = Some (sint (alu_result op a b) < 0)"
| "alu_flag op a b CPU_FLAG_C = alu_carry op a b"
| "alu_flag op a b CPU_FLAG_O = alu_overflow op a b"

definition alu_opcodes :: "Opcode set" where
  "alu_opcodes = {OP_ADD, OP_SUB, OP_MUL, OP_DIV, OP_MOD, OP_AND, OP_OR, OP_XOR, OP_NOT, OP_SHL, OP_SHR}"

text \<open>The value a REG or IMM16 operand denotes.\<close>

definition src_value :: "VM \<Rightarrow> Operand \<Rightarrow> u16" where
  "src_value vm op = (case op_mode op of
     MODE_REG \<Rightarrow> cpu_r (vm_cpu vm) ! unat (op_value op) | MODE_IMM16 \<Rightarrow> op_value op | _ \<Rightarrow> 0)"

definition vm_regs_ok :: "VM \<Rightarrow> bool" where
  "vm_regs_ok vm \<longleftrightarrow> length (cpu_r (vm_cpu vm)) = 8"

lemma operand_read_wf [simp]:
  "vm_regs_ok vm \<Longrightarrow> operand_wf op \<Longrightarrow> operand_read vm op = Some (src_value vm op)"
  by (auto simp: operand_read_def src_value_def operand_wf_def vm_regs_ok_def split: AddrMode.splits)

text \<open>The word operations of the code against the integer operations of the specification.\<close>

lemma take_bit_uint_u16: "take_bit 16 (uint (w :: u16)) = uint w"
  by (rule uint_u16_nat [of w]) (simp add: take_bit_int_eq_self)

lemma drop_bit_of_int: "drop_bit n (a :: u16) = word_of_int (uint a div 2 ^ n)"
proof -
  have "uint (drop_bit n a) = uint a div 2 ^ n"
    by (simp only: unsigned_drop_bit_eq) (simp add: drop_bit_eq_div take_bit_uint_u16)
  then show ?thesis by (metis word_of_int_uint)
qed

lemmas alu_word_facts =
  add_result mul_result add_carry add_overflow sub_overflow sign_flag mul_carry word_less_def
  shift_left_result shift_left_carry shift_right_result shift_right_carry drop_bit_of_int
  word_div_def word_mod_def

lemmas alu_exec_defs =
  exec_add_def exec_sub_def exec_mul_def exec_div_def exec_mod_def exec_and_def exec_or_def
  exec_xor_def exec_not_def exec_shl_def exec_shr_def

text \<open>What an executed ALU instruction leaves: the register file and the flags change, nothing else.\<close>

definition alu_effect :: "Opcode \<Rightarrow> u16 \<Rightarrow> u16 \<Rightarrow> u16 \<Rightarrow> VM \<Rightarrow> VM \<Rightarrow> bool" where
  "alu_effect op d a b vm vm' \<longleftrightarrow>
     cpu_r (vm_cpu vm') = (cpu_r (vm_cpu vm))[unat d := alu_result op a b] \<and>
     (\<forall>f. cpu_get_flag (vm_cpu vm') f =
        (case alu_flag op a b f of Some v \<Rightarrow> v | None \<Rightarrow> cpu_get_flag (vm_cpu vm) f)) \<and>
     vm' = vm\<lparr>vm_cpu := (vm_cpu vm)\<lparr>cpu_r := cpu_r (vm_cpu vm'), cpu_flags := cpu_flags (vm_cpu vm')\<rparr>\<rparr>"

lemma cpu_split_eq:
  "c' = c\<lparr>cpu_r := cpu_r c', cpu_flags := cpu_flags c'\<rparr> \<longleftrightarrow> cpu_pc c' = cpu_pc c \<and> cpu_sp c' = cpu_sp c"
  for c c' :: CPU
  by (cases c; cases c') auto

lemma alu_effectI:
  assumes "vm' = vm\<lparr>vm_cpu := c\<rparr>" "cpu_r c = (cpu_r (vm_cpu vm))[unat d := alu_result op a b]"
    "cpu_pc c = cpu_pc (vm_cpu vm)" "cpu_sp c = cpu_sp (vm_cpu vm)"
    "cpu_get_flag c CPU_FLAG_Z = (alu_result op a b = 0)"
    "cpu_get_flag c CPU_FLAG_S = (sint (alu_result op a b) < 0)"
    "cpu_get_flag c CPU_FLAG_C = (case alu_carry op a b of Some v \<Rightarrow> v | None \<Rightarrow> cpu_get_flag (vm_cpu vm) CPU_FLAG_C)"
    "cpu_get_flag c CPU_FLAG_O = (case alu_overflow op a b of Some v \<Rightarrow> v | None \<Rightarrow> cpu_get_flag (vm_cpu vm) CPU_FLAG_O)"
  shows "alu_effect op d a b vm vm'"
proof -
  have "cpu_get_flag c f = (case alu_flag op a b f of Some v \<Rightarrow> v | None \<Rightarrow> cpu_get_flag (vm_cpu vm) f)" for f
    using assms(5-8) by (cases f) (simp_all split: option.splits)
  moreover have "c = (vm_cpu vm)\<lparr>cpu_r := cpu_r c, cpu_flags := cpu_flags c\<rparr>"
    using assms(3,4) by (simp only: cpu_split_eq)
  ultimately show ?thesis
    using assms(1,2) by (auto simp: alu_effect_def)
qed

lemma execute_alu:
  assumes "vm_regs_ok vm" "instr_wf i" "instr_opcode i \<in> alu_opcodes"
    and "instr_opcode i \<in> {OP_DIV, OP_MOD} \<longrightarrow> src_value vm (instr_op2 i) \<noteq> 0"
  shows "\<exists>vm'. instruction_execute vm h i = Some (VM_OK, vm', h) \<and>
    alu_effect (instr_opcode i) (op_value (instr_op1 i))
      (cpu_r (vm_cpu vm) ! unat (op_value (instr_op1 i))) (src_value vm (instr_op2 i)) vm vm'"
proof -
  define d where "d = op_value (instr_op1 i)"
  define a where "a = cpu_r (vm_cpu vm) ! unat d"
  define b where "b = src_value vm (instr_op2 i)"
  have len: "length (cpu_r (vm_cpu vm)) = 8" using assms(1) by (simp add: vm_regs_ok_def)
  have w: "operand_wf (instr_op1 i)" "operand_wf (instr_op2 i)"
    using instr_wf_operands [OF assms(2)] by auto
  have d: "d \<le> 7"
    using assms(2,3) w by (auto simp: instr_wf_def Let_def alu_opcodes_def operand_wf_def d_def)
  have rd: "reg_get (vm_cpu vm) d = Some a" using len d by (simp add: a_def)
  have rb: "operand_read vm (instr_op2 i) = Some b" using assms(1) w(2) by (simp add: b_def)
  have bn: "instr_opcode i \<in> {OP_DIV, OP_MOD} \<longrightarrow> b \<noteq> 0" using assms(4) by (simp add: b_def)
  note ex = instruction_execute_def with_host_def rb len d rd d_def [symmetric]
  have "\<exists>vm'. instruction_execute vm h i = Some (VM_OK, vm', h) \<and> alu_effect (instr_opcode i) d a b vm vm'"
    using assms(3) bn unfolding alu_opcodes_def
    by (elim insertE)
      (auto simp: ex alu_exec_defs alu_word_facts bvm_laws out_of_int16_def Let_def case_prod_beta
        push_bit_eq_mult intro!: alu_effectI [OF refl])
  then show ?thesis by (simp add: d_def a_def b_def)
qed

subsection \<open>The machine invariant\<close>

text \<open>
  Eight registers, reserved flag bits zero, an even stack pointer that is either the
  empty-stack value or not below the stack limit, and an error only in a halted machine.
\<close>

definition vm_inv :: "VM \<Rightarrow> bool" where
  "vm_inv vm \<longleftrightarrow>
     length (cpu_r (vm_cpu vm)) = 8 \<and> flags_reserved_zero (vm_cpu vm) \<and>
     even (unat (cpu_sp (vm_cpu vm))) \<and>
     (cpu_sp (vm_cpu vm) = CPU_INITIAL_SP \<or> vm_stack_limit vm \<le> cpu_sp (vm_cpu vm)) \<and>
     (vm_last_error vm \<noteq> VM_OK \<longrightarrow> vm_halted vm)"

lemma vm_inv_regs_ok: "vm_inv vm \<Longrightarrow> vm_regs_ok vm"
  by (simp add: vm_inv_def vm_regs_ok_def)

lemma push_sp:
  fixes sp lim :: u16
  assumes "\<not> (sp < 2 \<or> sp - 2 < lim)" "even (unat sp)"
  shows "even (unat (sp - 2))" "lim \<le> sp - 2" "unat sp = unat (sp - 2) + 2"
  using assms by (auto simp: word_less_nat_alt word_le_nat_alt unat_sub_if')

lemma pop_sp:
  fixes sp lim :: u16
  assumes "sp \<noteq> 0xFFFE" "even (unat sp)"
  shows "even (unat (sp + 2))" "unat (sp + 2) = unat sp + 2"
proof -
  have "unat sp < 65536" by (rule unat_lt_65536)
  moreover have "unat sp \<noteq> 65534" using assms(1) by (simp add: word_unat_eq_iff)
  moreover have "unat sp \<noteq> 65535" using assms(2) by presburger
  ultimately have "unat sp + 2 < 65536" by linarith
  then show "unat (sp + 2) = unat sp + 2" by (simp add: unat_word_ariths)
  then show "even (unat (sp + 2))" using assms(2) by simp
qed

lemmas jump_exec_defs =
  exec_jmp_def exec_jz_def exec_jnz_def exec_jg_def exec_jge_def exec_jl_def exec_jle_def
  exec_jb_def exec_jae_def exec_ja_def exec_jbe_def

lemmas stack_exec_defs = exec_push_def exec_pop_def exec_call_def exec_ret_def

lemmas exec_defs =
  alu_exec_defs jump_exec_defs stack_exec_defs exec_mov_def exec_load_def exec_store_def
  exec_cmp_def exec_sys_def

definition effective_address :: "VM \<Rightarrow> Operand \<Rightarrow> u16" where
  "effective_address vm op = (case op_mode op of
     MODE_MEM_DIRECT \<Rightarrow> op_value op | MODE_REG_INDIRECT \<Rightarrow> cpu_r (vm_cpu vm) ! unat (op_value op) | _ \<Rightarrow> 0)"

lemma operand_effective_address_wf [simp]:
  "vm_regs_ok vm \<Longrightarrow> operand_wf op \<Longrightarrow> operand_effective_address vm op = Some (effective_address vm op)"
  by (auto simp: operand_effective_address_def effective_address_def operand_wf_def vm_regs_ok_def
      split: AddrMode.splits)

lemma operand_wf_reg: "operand_wf op \<Longrightarrow> op_mode op = MODE_REG \<Longrightarrow> op_value op \<le> 7"
  by (simp add: operand_wf_def)

text \<open>The stack part of the invariant after a successful push or pop.\<close>

lemma vm_inv_push:
  assumes "vm_inv vm" "\<not> cpu_sp (vm_cpu vm) < 2" "\<not> cpu_sp (vm_cpu vm) - 2 < vm_stack_limit vm"
  shows "vm_inv (vm\<lparr>vm_memory := m, vm_cpu := (vm_cpu vm)\<lparr>cpu_sp := cpu_sp (vm_cpu vm) - 2\<rparr>\<rparr>)"
    and "vm_inv (vm\<lparr>vm_memory := m, vm_cpu := (vm_cpu vm)\<lparr>cpu_sp := cpu_sp (vm_cpu vm) - 2, cpu_pc := a\<rparr>\<rparr>)"
  using assms push_sp [of "cpu_sp (vm_cpu vm)" "vm_stack_limit vm"] by (auto simp: vm_inv_def)

lemma vm_inv_pop:
  assumes "vm_inv vm" "cpu_sp (vm_cpu vm) \<noteq> CPU_INITIAL_SP"
  shows "vm_inv (vm\<lparr>vm_cpu := (vm_cpu vm)\<lparr>cpu_r := (cpu_r (vm_cpu vm))[k := v], cpu_sp := cpu_sp (vm_cpu vm) + 2\<rparr>\<rparr>)"
    and "vm_inv (vm\<lparr>vm_cpu := (vm_cpu vm)\<lparr>cpu_pc := a, cpu_sp := cpu_sp (vm_cpu vm) + 2\<rparr>\<rparr>)"
  using assms pop_sp [of "cpu_sp (vm_cpu vm)"]
  by (auto simp: vm_inv_def CPU_INITIAL_SP_def word_le_nat_alt)

lemma vm_inv_cpu:
  assumes "vm_inv vm" "length (cpu_r c) = 8" "flags_reserved_zero c" "cpu_sp c = cpu_sp (vm_cpu vm)"
  shows "vm_inv (vm\<lparr>vm_cpu := c\<rparr>)"
  using assms by (simp add: vm_inv_def)

lemma vm_inv_other [simp]:
  "vm_inv (vm\<lparr>vm_memory := m\<rparr>) = vm_inv vm"
  "vm_inv vm \<Longrightarrow> vm_inv (vm\<lparr>vm_halted := True\<rparr>)"
  "vm_inv vm \<Longrightarrow> vm_inv (vm\<lparr>vm_halted := True, vm_last_error := e, vm_error_pc := p\<rparr>)"
  by (auto simp: vm_inv_def)

lemma vm_invD:
  assumes "vm_inv vm"
  shows "length (cpu_r (vm_cpu vm)) = 8" "flags_reserved_zero (vm_cpu vm)" "vm_regs_ok vm"
  using assms by (auto simp: vm_inv_def vm_regs_ok_def)

lemma reg0_in_range [simp]:
  "length (cpu_r c) = 8 \<Longrightarrow> reg_get c 0 = Some (cpu_r c ! 0)"
  "length (cpu_r c) = 8 \<Longrightarrow> reg_set c 0 v = Some (c\<lparr>cpu_r := (cpu_r c)[0 := v]\<rparr>)"
  by (simp_all add: reg_get_def reg_set_def)

lemma execute_inv:
  assumes inv: "vm_inv vm" and wf: "instr_wf i"
  shows "\<exists>res vm' h'. instruction_execute vm h i = Some (res, vm', h') \<and> vm_inv vm' \<and>
    vm_stack_limit vm' = vm_stack_limit vm \<and> (res \<noteq> VM_OK \<longrightarrow> vm' = vm \<and> h' = h)"
proof -
  note w = instr_wf_operands [OF wf] and v = vm_invD [OF inv]
  have valid: "info_valid (opcode_info (instr_opcode i))"
    and l: "mode_is_legal (op_mode (instr_op1 i)) (info_op1_modes (opcode_info (instr_opcode i)))"
      "mode_is_legal (op_mode (instr_op2 i)) (info_op2_modes (opcode_info (instr_opcode i)))"
    using wf by (auto simp: instr_wf_def Let_def)
  show ?thesis
    using inv v w valid l
    by (cases "instr_opcode i")
      (auto simp: instruction_execute_def with_host_def exec_defs Let_def case_prod_beta operand_wf_reg
        intro!: vm_inv_cpu vm_inv_push vm_inv_pop)
qed

subsection \<open>One step\<close>

lemma vm_inv_set_pc [simp]: "vm_inv (set_pc vm a) = vm_inv vm"
  by (simp add: vm_inv_def)

lemma step_decode_error:
  assumes "\<not> vm_halted vm" "instruction_decode (vm_memory vm) (cpu_pc (vm_cpu vm)) = Inl e"
  shows "vm_step vm h =
    Some (e, vm\<lparr>vm_halted := True, vm_last_error := e, vm_error_pc := cpu_pc (vm_cpu vm)\<rparr>, h)"
  using assms instruction_decode_error [OF assms(2)] by (auto simp: vm_step_def Let_def)

lemma step_executes:
  assumes "\<not> vm_halted vm" "instruction_decode (vm_memory vm) (cpu_pc (vm_cpu vm)) = Inr (i, pc')"
    and "instruction_execute (set_pc vm pc') h i = Some (res, vm1, h1)"
  shows "vm_step vm h =
    Some (res, if res = VM_OK then vm1
               else vm1\<lparr>vm_halted := True, vm_last_error := res, vm_error_pc := cpu_pc (vm_cpu vm)\<rparr>, h1)"
  using assms by (simp add: vm_step_def Let_def)

text \<open>Case analysis of a step: halted, decode fault, or an executed instruction.\<close>

lemma vm_step_cases:
  assumes "vm_inv vm"
  obtains (halted) "vm_halted vm" "vm_step vm h = Some (vm_last_error vm, vm, h)"
  | (decode) e where "\<not> vm_halted vm" "instruction_decode (vm_memory vm) (cpu_pc (vm_cpu vm)) = Inl e"
      "e \<noteq> VM_OK"
      "vm_step vm h =
        Some (e, vm\<lparr>vm_halted := True, vm_last_error := e, vm_error_pc := cpu_pc (vm_cpu vm)\<rparr>, h)"
  | (fault) i pc' e where "\<not> vm_halted vm"
      "instruction_decode (vm_memory vm) (cpu_pc (vm_cpu vm)) = Inr (i, pc')" "instr_wf i"
      "instruction_execute (set_pc vm pc') h i = Some (e, set_pc vm pc', h)" "e \<noteq> VM_OK"
      "vm_step vm h = Some (e, (set_pc vm pc')\<lparr>vm_halted := True, vm_last_error := e,
         vm_error_pc := cpu_pc (vm_cpu vm)\<rparr>, h)"
  | (ok) i pc' vm' h' where "\<not> vm_halted vm"
      "instruction_decode (vm_memory vm) (cpu_pc (vm_cpu vm)) = Inr (i, pc')" "instr_wf i"
      "instruction_execute (set_pc vm pc') h i = Some (VM_OK, vm', h')" "vm_inv vm'"
      "vm_stack_limit vm' = vm_stack_limit vm" "vm_step vm h = Some (VM_OK, vm', h')"
proof (cases "vm_halted vm")
  case True
  then show ?thesis by (intro halted) (simp_all add: vm_step_def)
next
  case False
  show ?thesis
  proof (cases "instruction_decode (vm_memory vm) (cpu_pc (vm_cpu vm))")
    case (Inl e)
    with False show ?thesis
      using decode [OF False Inl _ step_decode_error [OF False Inl]] instruction_decode_error [OF Inl] by auto
  next
    case (Inr r)
    then obtain i pc' where dec: "instruction_decode (vm_memory vm) (cpu_pc (vm_cpu vm)) = Inr (i, pc')"
      by (cases r) auto
    have wf: "instr_wf i" by (rule codec.decoded_wf [OF dec])
    have "vm_inv (set_pc vm pc')" using assms by simp
    from execute_inv [OF this wf, of h] obtain res vm1 h1 where
      ex: "instruction_execute (set_pc vm pc') h i = Some (res, vm1, h1)" "vm_inv vm1"
        "vm_stack_limit vm1 = vm_stack_limit vm" "res \<noteq> VM_OK \<longrightarrow> vm1 = set_pc vm pc' \<and> h1 = h"
      by auto
    show ?thesis
    proof (cases "res = VM_OK")
      case True
      with ex ok [OF False dec wf] step_executes [OF False dec ex(1)] show ?thesis by simp
    next
      case no: False
      with ex fault [OF False dec wf] step_executes [OF False dec ex(1)] show ?thesis by simp
    qed
  qed
qed

lemma vm_step_inv:
  assumes "vm_inv vm"
  shows "\<exists>res vm' h'. vm_step vm h = Some (res, vm', h') \<and> vm_inv vm' \<and> vm_stack_limit vm' = vm_stack_limit vm"
  using assms by (cases rule: vm_step_cases [OF assms, of h]) auto

subsection \<open>Comparison and conditional jumps\<close>

text \<open>The relation each jump tests after \<open>CMP a, b\<close>.\<close>

fun jump_taken :: "Opcode \<Rightarrow> u16 \<Rightarrow> u16 \<Rightarrow> bool" where
  "jump_taken OP_JZ a b = (a = b)"
| "jump_taken OP_JNZ a b = (a \<noteq> b)"
| "jump_taken OP_JG a b = (sint b < sint a)"
| "jump_taken OP_JGE a b = (sint b \<le> sint a)"
| "jump_taken OP_JL a b = (sint a < sint b)"
| "jump_taken OP_JLE a b = (sint a \<le> sint b)"
| "jump_taken OP_JB a b = (uint a < uint b)"
| "jump_taken OP_JAE a b = (uint b \<le> uint a)"
| "jump_taken OP_JA a b = (uint b < uint a)"
| "jump_taken OP_JBE a b = (uint a \<le> uint b)"
| "jump_taken op a b = (op = OP_JMP)"

definition jump_opcodes :: "Opcode set" where
  "jump_opcodes = {OP_JMP, OP_JZ, OP_JNZ, OP_JG, OP_JGE, OP_JL, OP_JLE, OP_JB, OP_JAE, OP_JA, OP_JBE}"

text \<open>The flags say how two operands compare.\<close>

definition flags_compare :: "CPU \<Rightarrow> u16 \<Rightarrow> u16 \<Rightarrow> bool" where
  "flags_compare cpu a b \<longleftrightarrow>
     cpu_get_flag cpu CPU_FLAG_Z = (a = b) \<and>
     cpu_get_flag cpu CPU_FLAG_C = (uint a < uint b) \<and>
     (cpu_get_flag cpu CPU_FLAG_S = cpu_get_flag cpu CPU_FLAG_O) = (sint b \<le> sint a)"

lemma execute_cmp:
  assumes "vm_regs_ok vm" "instr_wf i" "instr_opcode i = OP_CMP"
  shows "\<exists>vm'. instruction_execute vm h i = Some (VM_OK, vm', h) \<and>
    vm' = vm\<lparr>vm_cpu := (vm_cpu vm)\<lparr>cpu_flags := cpu_flags (vm_cpu vm')\<rparr>\<rparr> \<and>
    flags_compare (vm_cpu vm') (src_value vm (instr_op1 i)) (src_value vm (instr_op2 i))"
proof -
  have "c' = c\<lparr>cpu_flags := cpu_flags c'\<rparr>"
    if "cpu_r c' = cpu_r c" "cpu_pc c' = cpu_pc c" "cpu_sp c' = cpu_sp c" for c c' :: CPU
    using that by (cases c; cases c') simp
  then have fr: "cpu_set_flag (cpu_set_flag (cpu_set_flag (cpu_set_flag (vm_cpu vm) f1 v1) f2 v2) f3 v3) f4 v4
      = (vm_cpu vm)\<lparr>cpu_flags := cpu_flags (cpu_set_flag (cpu_set_flag (cpu_set_flag (cpu_set_flag
          (vm_cpu vm) f1 v1) f2 v2) f3 v3) f4 v4)\<rparr>" for f1 f2 f3 f4 v1 v2 v3 v4
    by simp
  show ?thesis
    using assms instr_wf_operands [OF assms(2)] fr
      sub_sign_overflow [of "src_value vm (instr_op1 i)" "src_value vm (instr_op2 i)"]
    by (simp add: instruction_execute_def with_host_def exec_cmp_def flags_compare_def bvm_laws
        sub_overflow sign_flag word_less_def Let_def)
qed

lemma execute_jump:
  assumes "instr_opcode i \<in> jump_opcodes" "flags_compare (vm_cpu vm) a b"
  shows "instruction_execute vm h i =
    Some (VM_OK, if jump_taken (instr_opcode i) a b then set_pc vm (op_value (instr_op1 i)) else vm, h)"
proof -
  have eqs: "a = b \<longleftrightarrow> uint a = uint b" "a = b \<longleftrightarrow> sint a = sint b"
    by (rule word_uint_eq_iff, rule word_eq_iff_signed)
  show ?thesis
    using assms eqs unfolding jump_opcodes_def flags_compare_def
    by (elim insertE)
      (auto simp: instruction_execute_def with_host_def jump_exec_defs Let_def)
qed

subsection \<open>READ_INT\<close>

definition pending :: "char option \<Rightarrow> string \<Rightarrow> string" where
  "pending c cs = (case c of None \<Rightarrow> cs | Some d \<Rightarrow> d # cs)"

lemma read_skip_spaces_spec:
  "read_skip_spaces s = getchar (dropWhile is_input_space s)"
  by (induction s) (auto simp: getchar_def)

lemma pending_getchar: "getchar s = (c, cs) \<Longrightarrow> pending c cs = s"
  by (cases s) (auto simp: pending_def getchar_def)

lemma getchar_eof: "getchar s = (None, cs) \<Longrightarrow> cs = []"
  by (cases s) (simp_all add: getchar_def)

text \<open>The digit loop reads the longest run of digits and accumulates its value modulo \<open>2^64\<close>.\<close>

lemma read_digits_spec:
  assumes "c = None \<longrightarrow> cs = []" "m = of_nat n"
    and "ds = takeWhile is_digit (pending c cs)"
  shows "\<exists>c' cs'. read_digits c cs has m = (c', cs', has \<or> ds \<noteq> [], of_nat (dec_value n ds)) \<and>
    pending c' cs' = dropWhile is_digit (pending c cs)"
  using assms
proof (induction c cs has m arbitrary: n ds rule: read_digits.induct)
  case (1 c cs has m)
  show ?case
  proof (cases "\<exists>d. c = Some d \<and> is_digit d")
    case False
    then show ?thesis
      using "1.prems" by (cases c) (auto simp: read_digits.simps [of None] read_digits.simps [of "Some a" for a] pending_def)
  next
    case True
    then obtain d where d: "c = Some d" "is_digit d" by blast
    obtain c1 cs1 where g: "getchar cs = (c1, cs1)" by (cases "getchar cs")
    have p: "pending c1 cs1 = cs" by (rule pending_getchar [OF g])
    have "c1 = None \<longrightarrow> cs1 = []" using getchar_eof g by blast
    from "1.IH" [OF d(1) d(2) g [symmetric] refl this, of "n * 10 + digit_val d" "takeWhile is_digit cs"]
    obtain c' cs' where
      "read_digits c1 cs1 True (m * 10 + of_nat (digit_val d)) =
         (c', cs', True, of_nat (dec_value (n * 10 + digit_val d) (takeWhile is_digit cs)))"
      "pending c' cs' = dropWhile is_digit cs"
      using "1.prems"(2) by (auto simp: p)
    with d "1.prems"(3) show ?thesis
      by (auto simp: read_digits.simps [of "Some d"] g pending_def)
  qed
qed

lemma bit_half_mask [simp]: "bit (0xFFFF :: int) n \<longleftrightarrow> n < 16"
proof -
  have "(0xFFFF :: int) = mask 16" by (simp add: mask_eq_exp_minus_1)
  then show ?thesis by (simp only: bit_mask_iff) auto
qed

lemma low16_of_nat: "ucast ((of_nat n :: u64) AND 0xFFFF) = (of_nat n :: u16)"
  by (rule bit_word_eqI) (simp add: bit_simps)

definition read_int_spec :: "string \<Rightarrow> int \<times> string" where
  "read_int_spec s =
     (let s1 = dropWhile is_input_space s;
          neg = (case s1 of c # _ \<Rightarrow> c = CHR ''-'' | [] \<Rightarrow> False);
          s2 = (if neg then tl s1 else s1);
          n = int (dec_value 0 (takeWhile is_digit s2))
      in (if neg then - n else n, dropWhile is_digit s2))"

lemma read_int_from_stdin_spec:
  "read_int_from_stdin h =
     (word_of_int (fst (read_int_spec (host_in h))), h\<lparr>host_in := snd (read_int_spec (host_in h))\<rparr>)"
proof -
  define s1 where "s1 = dropWhile is_input_space (host_in h)"
  obtain c0 cs0 where g0: "getchar s1 = (c0, cs0)" by (cases "getchar s1")
  define neg where "neg = (c0 = Some CHR ''-'')"
  define s2 where "s2 = (if neg then tl s1 else s1)"
  have neg_eq: "neg = (case s1 of c # _ \<Rightarrow> c = CHR ''-'' | [] \<Rightarrow> False)"
    using g0 by (auto simp: neg_def getchar_def split: list.splits)
  obtain c1 cs1 where g1: "(if neg then getchar cs0 else (c0, cs0)) = (c1, cs1)" by (metis surj_pair)
  have tl: "neg \<Longrightarrow> cs0 = tl s1" using g0 by (auto simp: neg_def getchar_def split: list.splits)
  have p: "pending c1 cs1 = s2"
    using g0 g1 tl by (auto simp: s2_def pending_getchar split: if_splits)
  have e: "c1 = None \<longrightarrow> cs1 = []"
    using g0 g1 by (auto dest: getchar_eof split: if_splits)
  obtain c2 cs2 where d: "read_digits c1 cs1 False 0 =
      (c2, cs2, takeWhile is_digit s2 \<noteq> [], of_nat (dec_value 0 (takeWhile is_digit s2)))"
    "pending c2 cs2 = dropWhile is_digit s2"
    using read_digits_spec [OF e, of 0 0 "takeWhile is_digit s2" False] p by auto
  have "read_int_spec (host_in h) =
      (if neg then - int (dec_value 0 (takeWhile is_digit s2)) else int (dec_value 0 (takeWhile is_digit s2)),
       dropWhile is_digit s2)"
    by (simp add: read_int_spec_def Let_def s1_def [symmetric] neg_eq [symmetric] s2_def)
  then show ?thesis
    using d g1 by (auto simp: read_int_from_stdin_def read_skip_spaces_spec s1_def [symmetric] g0
      neg_def [symmetric] Let_def pending_def [symmetric] low16_of_nat)
qed

end
