(* ===== verification/Bvm_Stack.thy ===== *)
theory Bvm_Stack
  imports Bvm_Exec
begin

text \<open>
  The stack of src/vm.c: what the instructions write to memory, the live stack as a list of
  words, and the stack contract that PUSH/POP and CALL/RET both implement.
\<close>

unbundle bit_operations_syntax

subsection \<open>What an instruction writes to memory\<close>

lemma execute_memory:
  assumes "vm_inv vm" "instr_wf i" "instruction_execute vm h i = Some (VM_OK, vm', h')"
  shows "vm_memory vm' =
    (case instr_opcode i of
       OP_STORE \<Rightarrow> mem_write16 (vm_memory vm) (effective_address vm (instr_op1 i))
                     (cpu_r (vm_cpu vm) ! unat (op_value (instr_op2 i)))
     | OP_PUSH \<Rightarrow> mem_write16 (vm_memory vm) (cpu_sp (vm_cpu vm)) (src_value vm (instr_op1 i))
     | OP_CALL \<Rightarrow> mem_write16 (vm_memory vm) (cpu_sp (vm_cpu vm)) (cpu_pc (vm_cpu vm))
     | _ \<Rightarrow> vm_memory vm)"
proof -
  note w = instr_wf_operands [OF assms(2)] and v = vm_invD [OF assms(1)]
  have l: "info_valid (opcode_info (instr_opcode i))"
    "mode_is_legal (op_mode (instr_op1 i)) (info_op1_modes (opcode_info (instr_opcode i)))"
    "mode_is_legal (op_mode (instr_op2 i)) (info_op2_modes (opcode_info (instr_opcode i)))"
    using assms(2) by (auto simp: instr_wf_def Let_def)
  show ?thesis
    using assms(3) v w l
    by (cases "instr_opcode i")
      (auto simp: instruction_execute_def with_host_def exec_defs Let_def case_prod_beta operand_wf_reg
        split: if_splits)
qed

text \<open>The stack operations succeed only when their two bytes lie at or above the stack limit.\<close>

lemma execute_push_room:
  assumes "vm_inv vm" "instr_wf i" "instruction_execute vm h i = Some (VM_OK, vm', h')"
    and "instr_opcode i = OP_PUSH \<or> instr_opcode i = OP_CALL"
  shows "\<not> (cpu_sp (vm_cpu vm) < 2 \<or> cpu_sp (vm_cpu vm) - 2 < vm_stack_limit vm)"
  using assms vm_invD [OF assms(1)] instr_wf_operands [OF assms(2)]
  by (auto simp: instruction_execute_def with_host_def exec_push_def exec_call_def Let_def split: if_splits)

lemma unat_succ_even: "even (unat (sp :: u16)) \<Longrightarrow> unat (sp + 1) = unat sp + 1"
proof -
  assume "even (unat sp)"
  then have "unat sp < 65535" using unat_lt_65536 [of sp] by presburger
  then show ?thesis by (simp add: unat_word_ariths)
qed

lemma stack_write_above_limit:
  fixes sp lim a :: u16
  assumes "\<not> (sp < 2 \<or> sp - 2 < lim)" "even (unat sp)" "a < lim"
  shows "a \<noteq> sp" "a \<noteq> sp + 1"
proof -
  have "unat (sp + 1) = unat sp + 1" by (rule unat_succ_even [OF assms(2)])
  moreover have "unat a + 2 < unat sp"
    using push_sp [OF assms(1,2)] assms(3) by (simp add: word_less_nat_alt word_le_nat_alt)
  ultimately show "a \<noteq> sp" "a \<noteq> sp + 1" by auto
qed

lemma execute_keeps_below_limit:
  assumes "vm_inv vm" "instr_wf i" "instruction_execute vm h i = Some (VM_OK, vm', h')"
    and "instr_opcode i \<noteq> OP_STORE" "a < vm_stack_limit vm"
  shows "mem_read8 (vm_memory vm') a = mem_read8 (vm_memory vm) a"
proof (cases "instr_opcode i = OP_PUSH \<or> instr_opcode i = OP_CALL")
  case True
  have "even (unat (cpu_sp (vm_cpu vm)))" using assms(1) by (simp add: vm_inv_def)
  from stack_write_above_limit [OF execute_push_room [OF assms(1-3) True] this assms(5)] True
  show ?thesis
    using execute_memory [OF assms(1-3)] by (auto simp: vm_mem.rd8_wr16)
next
  case False
  with assms(4) execute_memory [OF assms(1-3)] show ?thesis
    by (cases "instr_opcode i") auto
qed

subsection \<open>The stack as a list of words\<close>

function stack_from :: "Memory \<Rightarrow> nat \<Rightarrow> u16 list" where
  "stack_from mem n = (if 0xFFFE \<le> n then [] else mem_read16 mem (of_nat (n + 2)) # stack_from mem (n + 2))"
  by pat_completeness auto
termination
  by (relation "measure (\<lambda>(m, n). 0xFFFE - n)") auto

declare stack_from.simps [simp del]

text \<open>The live stack, top first: SP is the next free slot, the bottom word is at 0xFFFE.\<close>

definition vm_stack :: "VM \<Rightarrow> u16 list" where
  "vm_stack vm = stack_from (vm_memory vm) (unat (cpu_sp (vm_cpu vm)))"

lemma stack_from_write:
  assumes "unat a \<le> n" "even n"
  shows "stack_from (mem_write16 mem a v) n = stack_from mem n"
  using assms
proof (induction mem n rule: stack_from.induct)
  case (1 mem n)
  show ?case
  proof (cases "0xFFFE \<le> n")
    case True
    then show ?thesis by (simp add: stack_from.simps [of _ n])
  next
    case False
    with \<open>even n\<close> have n: "n + 3 < 65536" by presburger
    define b :: u16 where "b = of_nat (n + 2)"
    have b: "unat b = n + 2" using n unfolding b_def by (intro unat_of_nat_u16) simp
    then have u2: "unat (b + 1) = n + 3" using n by (simp add: unat_word_ariths)
    have u1: "unat (a + 1) = unat a + 1" using \<open>unat a \<le> n\<close> n by (simp add: unat_word_ariths)
    have "b \<noteq> a" "b \<noteq> a + 1" "b + 1 \<noteq> a" using b u1 u2 \<open>unat a \<le> n\<close> by auto
    then have "mem_read16 (mem_write16 mem a v) b = mem_read16 mem b"
      by (rule vm_mem.rd16_wr16_disjoint)
    with False "1.IH" [OF False] "1.prems" show ?thesis
      unfolding b_def by (simp add: stack_from.simps [of _ n])
  qed
qed


lemma vm_stack_empty:
  assumes "vm_inv vm"
  shows "vm_stack vm = [] \<longleftrightarrow> cpu_sp (vm_cpu vm) = CPU_INITIAL_SP"
proof -
  have "even (unat (cpu_sp (vm_cpu vm)))" using assms by (simp add: vm_inv_def)
  moreover have "unat (cpu_sp (vm_cpu vm)) < 65536" by (rule unat_lt_65536)
  ultimately have "65534 \<le> unat (cpu_sp (vm_cpu vm)) \<longleftrightarrow> unat (cpu_sp (vm_cpu vm)) = 65534"
    by presburger
  then show ?thesis
    by (auto simp: vm_stack_def stack_from.simps [of _ "unat (cpu_sp (vm_cpu vm))"] CPU_INITIAL_SP_def
        word_unat_eq_iff)
qed

lemma stack_from_push:
  assumes "\<not> (sp < 2 \<or> sp - 2 < lim)" "even (unat (sp :: u16))"
  shows "stack_from (mem_write16 mem sp v) (unat (sp - 2)) = v # stack_from mem (unat sp)"
proof -
  note p = push_sp [OF assms]
  have "unat (sp - 2) < 0xFFFE" using p(3) unat_lt_65536 [of sp] by simp
  moreover have "of_nat (unat (sp - 2) + 2) = sp" using p(3) by (metis of_nat_unat ucast_id)
  ultimately have "stack_from (mem_write16 mem sp v) (unat (sp - 2)) =
      v # stack_from (mem_write16 mem sp v) (unat sp)"
    using p(3) by (simp add: stack_from.simps [of _ "unat (sp - 2)"] vm_mem.rd16_wr16_same)
  then show ?thesis using assms(2) by (simp add: stack_from_write)
qed

lemma stack_from_pop:
  assumes "sp \<noteq> 0xFFFE" "even (unat (sp :: u16))"
  shows "stack_from mem (unat sp) = mem_read16 mem (sp + 2) # stack_from mem (unat (sp + 2))"
proof -
  note p = pop_sp(2) [OF assms]
  have "unat (sp + 2) < 65536" by (rule unat_lt_65536)
  then have "unat sp < 0xFFFE" using p by simp
  moreover have "of_nat (unat sp + 2) = sp + 2" using p by (metis of_nat_unat ucast_id)
  ultimately show ?thesis using p by (simp add: stack_from.simps [of _ "unat sp"] add.commute)
qed


subsection \<open>The stack contract\<close>

text \<open>
  PUSH with POP, and CALL with RET, use one stack of words in memory. A push takes an argument
  (the operand of PUSH, the return address of CALL) that denotes a word in a state, a pop a
  destination (the register of POP, none for RET). The contract: a push with room puts the
  word of its argument on top and leaves the words of all arguments as they are, a push without
  room fails, a pop takes the top word off, a pop of the empty stack fails.
\<close>

locale word_stack =
  fixes push :: "'a \<Rightarrow> 's \<Rightarrow> 's option"
    and word_of :: "'s \<Rightarrow> 'a \<Rightarrow> 'v"
    and legal :: "'a \<Rightarrow> bool"
    and pop :: "'r \<Rightarrow> 's \<Rightarrow> ('v \<times> 's) option"
    and dest :: "'r \<Rightarrow> bool"
    and contents :: "'s \<Rightarrow> 'v list"
    and room :: "'s \<Rightarrow> bool"
    and inv :: "'s \<Rightarrow> bool"
  assumes push_room: "inv s \<Longrightarrow> room s \<Longrightarrow> legal a \<Longrightarrow>
      \<exists>s'. push a s = Some s' \<and> inv s' \<and> contents s' = word_of s a # contents s \<and> word_of s' = word_of s"
    and push_full: "inv s \<Longrightarrow> \<not> room s \<Longrightarrow> legal a \<Longrightarrow> push a s = None"
    and pop_cons: "inv s \<Longrightarrow> dest r \<Longrightarrow> contents s = v # vs \<Longrightarrow> \<exists>s'. pop r s = Some (v, s') \<and> inv s' \<and> contents s' = vs"
    and pop_empty: "inv s \<Longrightarrow> dest r \<Longrightarrow> contents s = [] \<Longrightarrow> pop r s = None"
begin

lemma push_contents:
  assumes "inv s" "legal a" "push a s = Some s'"
  shows "inv s'" "contents s' = word_of s a # contents s" "word_of s' = word_of s"
proof -
  have "room s" using assms push_full by (cases "room s") auto
  with push_room [OF assms(1) _ assms(2)] assms(3)
  show "inv s'" "contents s' = word_of s a # contents s" "word_of s' = word_of s" by auto
qed

text \<open>Balanced use: whatever happened in between, if the stack is again as the push left it,
  the pop returns the pushed word and the stack below it.\<close>

lemma balanced_pop:
  assumes "inv s" "legal a" "push a s = Some s'" "inv t" "dest r" "contents t = contents s'"
  shows "\<exists>t'. pop r t = Some (word_of s a, t') \<and> inv t' \<and> contents t' = contents s"
  using push_contents(2) [OF assms(1-3)] assms(4-6) by (intro pop_cons) simp_all

lemma pop_iff_nonempty: "inv s \<Longrightarrow> dest r \<Longrightarrow> pop r s = None \<longleftrightarrow> contents s = []"
  by (cases "contents s") (use pop_empty pop_cons in force)+

end

definition stack_room :: "VM \<Rightarrow> bool" where
  "stack_room vm \<longleftrightarrow>
     \<not> (cpu_sp (vm_cpu vm) < 2 \<or> cpu_sp (vm_cpu vm) - 2 < vm_stack_limit vm)"

definition no_operand :: Operand where
  "no_operand = \<lparr>op_mode = MODE_NONE, op_value = 0\<rparr>"

text \<open>PUSH of an operand, and POP into a register with the word it then holds.\<close>

definition push_instr :: "Operand \<Rightarrow> Instruction" where
  "push_instr x = \<lparr>instr_opcode = OP_PUSH, instr_op1 = x, instr_op2 = no_operand\<rparr>"

definition pop_instr :: "u16 \<Rightarrow> Instruction" where
  "pop_instr r = \<lparr>instr_opcode = OP_POP, instr_op1 = \<lparr>op_mode = MODE_REG, op_value = r\<rparr>, instr_op2 = no_operand\<rparr>"

definition push_from :: "Operand \<Rightarrow> VM \<Rightarrow> VM option" where
  "push_from x vm = (case exec_push vm (push_instr x) of Some (VM_OK, vm') \<Rightarrow> Some vm' | _ \<Rightarrow> None)"

definition pop_to :: "u16 \<Rightarrow> VM \<Rightarrow> (u16 \<times> VM) option" where
  "pop_to r vm =
     (case exec_pop vm (pop_instr r) of
        Some (VM_OK, vm') \<Rightarrow> Some (cpu_r (vm_cpu vm') ! unat r, vm') | _ \<Rightarrow> None)"

text \<open>CALL from return address \<open>ra\<close> to \<open>target\<close>, and RET.\<close>

definition jump_to :: "Opcode \<Rightarrow> u16 \<Rightarrow> Instruction" where
  "jump_to op t = \<lparr>instr_opcode = op, instr_op1 = \<lparr>op_mode = MODE_MEM_DIRECT, op_value = t\<rparr>,
     instr_op2 = no_operand\<rparr>"

definition ret_instr :: Instruction where
  "ret_instr = \<lparr>instr_opcode = OP_RET, instr_op1 = no_operand, instr_op2 = no_operand\<rparr>"

definition call_from :: "u16 \<Rightarrow> u16 \<Rightarrow> VM \<Rightarrow> VM option" where
  "call_from target ra vm =
     (case exec_call (set_pc vm ra) (jump_to OP_CALL target) of
        Some (VM_OK, vm') \<Rightarrow> Some vm' | _ \<Rightarrow> None)"

definition ret_to :: "VM \<Rightarrow> (u16 \<times> VM) option" where
  "ret_to vm =
     (case exec_ret vm ret_instr of
        Some (VM_OK, vm') \<Rightarrow> Some (cpu_pc (vm_cpu vm'), vm') | _ \<Rightarrow> None)"

lemma vm_inv_even_sp: "vm_inv vm \<Longrightarrow> even (unat (cpu_sp (vm_cpu vm)))"
  by (simp add: vm_inv_def)

lemma vm_stack_push:
  "vm_inv vm \<Longrightarrow> stack_room vm \<Longrightarrow>
     stack_from (mem_write16 (vm_memory vm) (cpu_sp (vm_cpu vm)) v) (unat (cpu_sp (vm_cpu vm) - 2))
     = v # vm_stack vm"
  using stack_from_push [OF _ vm_inv_even_sp] by (simp add: stack_room_def vm_stack_def)

lemma vm_stack_pop:
  assumes "vm_inv vm" "vm_stack vm = v # vs"
  shows "cpu_sp (vm_cpu vm) \<noteq> CPU_INITIAL_SP"
    and "mem_read16 (vm_memory vm) (cpu_sp (vm_cpu vm) + 2) = v"
    and "stack_from (vm_memory vm) (unat (cpu_sp (vm_cpu vm) + 2)) = vs"
proof -
  show sp: "cpu_sp (vm_cpu vm) \<noteq> CPU_INITIAL_SP"
    using vm_stack_empty [OF assms(1)] assms(2) by auto
  have "vm_stack vm = mem_read16 (vm_memory vm) (cpu_sp (vm_cpu vm) + 2)
      # stack_from (vm_memory vm) (unat (cpu_sp (vm_cpu vm) + 2))"
    unfolding vm_stack_def
    using sp vm_inv_even_sp [OF assms(1)] by (intro stack_from_pop) (simp_all add: CPU_INITIAL_SP_def)
  with assms(2) show "mem_read16 (vm_memory vm) (cpu_sp (vm_cpu vm) + 2) = v"
    "stack_from (vm_memory vm) (unat (cpu_sp (vm_cpu vm) + 2)) = vs" by auto
qed

lemma src_value_regs: "cpu_r (vm_cpu vm') = cpu_r (vm_cpu vm) \<Longrightarrow> src_value vm' = src_value vm"
  by (rule ext) (simp add: src_value_def split: AddrMode.split)

interpretation data_stack: word_stack push_from src_value operand_wf pop_to "\<lambda>r. r \<le> 7" vm_stack stack_room vm_inv
proof
  fix vm :: VM and x v assume vm: "vm_inv vm"
  note ok = vm_invD [OF vm]
  show "\<exists>s'. push_from x vm = Some s' \<and> vm_inv s' \<and> vm_stack s' = src_value vm x # vm_stack vm \<and> src_value s' = src_value vm"
    if room: "stack_room vm" "operand_wf x"
  proof (intro exI conjI)
    let ?c = "vm_cpu vm"
    let ?vm = "vm\<lparr>vm_memory := mem_write16 (vm_memory vm) (cpu_sp ?c) (src_value vm x), vm_cpu := ?c\<lparr>cpu_sp := cpu_sp ?c - 2\<rparr>\<rparr>"
    show "push_from x vm = Some ?vm"
      using room ok by (simp add: push_from_def push_instr_def exec_push_def Let_def stack_room_def)
    show "vm_inv ?vm" using room(1) by (intro vm_inv_push(1) [OF vm]) (simp_all add: stack_room_def)
    show "vm_stack ?vm = src_value vm x # vm_stack vm" using vm_stack_push [OF vm room(1)] by (simp add: vm_stack_def)
    show "src_value ?vm = src_value vm" by (rule src_value_regs) simp
  qed
  show "push_from x vm = None" if "\<not> stack_room vm" "operand_wf x"
    using that ok by (auto simp: push_from_def push_instr_def exec_push_def Let_def stack_room_def)
  show "\<exists>s'. pop_to r vm = Some (v, s') \<and> vm_inv s' \<and> vm_stack s' = vs" if "r \<le> 7" "vm_stack vm = v # vs" for r vs
    using vm_stack_pop [OF vm that(2)] vm_inv_pop(1) [OF vm] ok that(1) reg_index_lt [OF that(1)]
    by (simp add: pop_to_def pop_instr_def exec_pop_def Let_def vm_stack_def)
  show "pop_to r vm = None" if "vm_stack vm = []" for r
    using that vm_stack_empty [OF vm] by (simp add: pop_to_def exec_pop_def)
qed

interpretation call_stack: word_stack "call_from target" "\<lambda>vm ra. ra" "\<lambda>ra. True" "\<lambda>_ :: unit. ret_to" "\<lambda>_. True"
    vm_stack stack_room vm_inv
  for target :: u16
proof
  fix vm :: VM and v assume vm: "vm_inv vm"
  show "\<exists>s'. call_from target v vm = Some s' \<and> vm_inv s' \<and> vm_stack s' = v # vm_stack vm \<and> (\<lambda>ra. ra) = (\<lambda>ra. ra :: u16)"
    if "stack_room vm"
    using that vm vm_inv_push(2) [OF vm] vm_stack_push [OF vm that]
    by (simp add: call_from_def exec_call_def Let_def stack_room_def vm_stack_def)
  show "call_from target v vm = None" if "\<not> stack_room vm"
    using that by (auto simp: call_from_def exec_call_def Let_def stack_room_def)
  show "\<exists>s'. ret_to vm = Some (v, s') \<and> vm_inv s' \<and> vm_stack s' = vs" if "vm_stack vm = v # vs" for vs
    using vm_stack_pop [OF vm that] vm_inv_pop(2) [OF vm]
    by (simp add: ret_to_def exec_ret_def Let_def vm_stack_def)
  show "ret_to vm = None" if "vm_stack vm = []"
    using that vm_stack_empty [OF vm] by (simp add: ret_to_def exec_ret_def)
qed

subsection \<open>Sequences of pushes and pops\<close>

fun push_all :: "('a \<Rightarrow> 's \<Rightarrow> 's option) \<Rightarrow> 'a list \<Rightarrow> 's \<Rightarrow> 's option" where
  "push_all push [] s = Some s"
| "push_all push (a # as) s = Option.bind (push a s) (push_all push as)"

fun pop_all :: "('r \<Rightarrow> 's \<Rightarrow> ('v \<times> 's) option) \<Rightarrow> 'r list \<Rightarrow> 's \<Rightarrow> ('v list \<times> 's) option" where
  "pop_all pop [] s = Some ([], s)"
| "pop_all pop (r # rs) s =
     Option.bind (pop r s) (\<lambda>(v, s'). map_option (\<lambda>(vs, s''). (v # vs, s'')) (pop_all pop rs s'))"

context word_stack
begin

lemma push_all_contents:
  assumes "inv s" "list_all legal as" "push_all push as s = Some s'"
  shows "inv s' \<and> contents s' = rev (map (word_of s) as) @ contents s"
  using assms
proof (induction as arbitrary: s)
  case (Cons a as)
  then obtain s1 where s1: "push a s = Some s1" "push_all push as s1 = Some s'"
    by (auto simp: bind_eq_Some_conv)
  have a: "legal a" "list_all legal as" using Cons.prems(2) by auto
  note c = push_contents [OF Cons.prems(1) a(1) s1(1)]
  from Cons.IH [OF c(1) a(2) s1(2)] c(2,3) show ?case by simp
qed simp

lemma pop_all_contents:
  assumes "inv s" "list_all dest rs" "contents s = ws @ rest" "length rs = length ws"
  shows "\<exists>s'. pop_all pop rs s = Some (ws, s') \<and> inv s' \<and> contents s' = rest"
  using assms
proof (induction ws arbitrary: s rs)
  case (Cons w ws)
  then obtain r rs' where r: "rs = r # rs'" "dest r" "list_all dest rs'" "length rs' = length ws" by (cases rs) auto
  obtain s1 where s1: "pop r s = Some (w, s1)" "inv s1" "contents s1 = ws @ rest"
    using pop_cons [OF Cons.prems(1) r(2), of w "ws @ rest"] Cons.prems(3) by auto
  from Cons.IH [OF s1(2) r(3) s1(3) r(4)] s1(1) r(1) show ?case by auto
qed simp

lemma push_all_pop_all:
  assumes "inv s" "list_all legal as" "push_all push as s = Some s'" "list_all dest rs" "length rs = length as"
  shows "\<exists>s''. pop_all pop rs s' = Some (rev (map (word_of s) as), s'') \<and> inv s'' \<and> contents s'' = contents s"
  using pop_all_contents [of s' rs "rev (map (word_of s) as)" "contents s"] push_all_contents [OF assms(1-3)] assms(4,5) by simp

end

lemma pop_all_registers:
  assumes "pop_all pop_to rs vm = Some (vs, vm')" "list_all (\<lambda>r. r \<le> 7) rs" "vm_inv vm"
  shows "cpu_r (vm_cpu vm') = fold (\<lambda>(r, v) regs. regs[unat r := v]) (zip rs vs) (cpu_r (vm_cpu vm))"
  using assms
proof (induction rs arbitrary: vm vs)
  case (Cons r rs)
  then obtain v vm1 vs' where p: "pop_to r vm = Some (v, vm1)" "pop_all pop_to rs vm1 = Some (vs', vm')" "vs = v # vs'"
    by (auto simp: bind_eq_Some_conv)
  have r: "r \<le> 7" using Cons.prems(2) by simp
  have "vm_stack vm \<noteq> []" using data_stack.pop_empty [OF Cons.prems(3) r] p(1) by auto
  then obtain w ws where "vm_stack vm = w # ws" by (cases "vm_stack vm") auto
  from data_stack.pop_cons [OF Cons.prems(3) r this] p(1) have "vm_inv vm1" by auto
  moreover have "cpu_r (vm_cpu vm1) = (cpu_r (vm_cpu vm))[unat r := v]"
    using p(1) r reg_index_lt [OF r] vm_invD [OF Cons.prems(3)]
    by (auto simp: pop_to_def pop_instr_def exec_pop_def Let_def split: if_split_asm)
  ultimately show ?case using Cons.IH [OF p(2)] Cons.prems(2) p(3) by simp
qed simp

lemma stack_from_length: "even n \<Longrightarrow> n \<le> 0xFFFE \<Longrightarrow> 2 * length (stack_from mem n) = 0xFFFE - n"
proof (induction mem n rule: stack_from.induct)
  case (1 mem n)
  show ?case
  proof (cases "0xFFFE \<le> n")
    case False
    with \<open>even n\<close> have le: "n + 2 \<le> 0xFFFE" by presburger
    from "1.IH" [OF False _ le] \<open>even n\<close> have "2 * length (stack_from mem (n + 2)) = 0xFFFE - (n + 2)" by simp
    with False le show ?thesis by (simp add: stack_from.simps [of mem n])
  next
    case True
    then show ?thesis by (simp add: stack_from.simps [of mem n] stack_from.simps [of mem "0xFFFE"])
  qed
qed

lemma vm_stack_depth: 
  assumes "vm_inv vm"
  shows "unat (cpu_sp (vm_cpu vm)) + 2 * length (vm_stack vm) = 0xFFFE"
proof -
  have "even (unat (cpu_sp (vm_cpu vm)))" by (rule vm_inv_even_sp [OF assms])
  moreover from this have "unat (cpu_sp (vm_cpu vm)) \<le> 0xFFFE" using unat_lt_65536 [of "cpu_sp (vm_cpu vm)"] by presburger
  ultimately show ?thesis using stack_from_length [of _ "vm_memory vm"] by (simp add: vm_stack_def)
qed

lemma stack_room_iff:
  assumes "vm_inv vm"
  shows "stack_room vm \<longleftrightarrow> unat (vm_stack_limit vm) + 2 * length (vm_stack vm) + 2 \<le> 0xFFFE"
  using vm_stack_depth [OF assms]
  by (auto simp: stack_room_def word_less_nat_alt unat_sub_if')

end
