(* ===== verification/Bvm_Machine.thy ===== *)
theory Bvm_Machine
  imports Bvm_Stack
begin

text \<open>
  Properties of the processor step \<open>vm_step\<close> (src/vm.c): the arithmetic and logic unit,
  comparison and jumps, faults, runs of any length, memory safety of the stack, calls, the
  data stack, the console, loads and stores.
\<close>

unbundle bit_operations_syntax

subsection \<open>A concrete machine\<close>

text \<open>The initialised machine with a program at address 0.\<close>

definition machine_with :: "u8 list \<Rightarrow> VM" where
  "machine_with bs =
     \<lparr>vm_cpu = cpu_init \<lparr>cpu_r = [], cpu_pc = 1, cpu_sp = 2, cpu_flags = 3\<rparr>,
      vm_memory = \<lparr>mem_data = (\<lambda>a. if a < of_nat (length bs) then bs ! unat a else 0)\<rparr>,
      vm_halted = False, vm_last_error = VM_OK, vm_error_pc = 0, vm_stack_limit = 16\<rparr>"

lemma machine_with_inv [simp]: "vm_inv (machine_with bs)"
  by (simp add: vm_inv_def machine_with_def cpu_init_def CPU_INITIAL_SP_def flags_reserved_zero_def)

lemma machine_with_fields [simp]:
  "\<not> vm_halted (machine_with bs)" "cpu_pc (vm_cpu (machine_with bs)) = 0"
  "cpu_sp (vm_cpu (machine_with bs)) = CPU_INITIAL_SP" "vm_stack_limit (machine_with bs) = 16"
  by (simp_all add: machine_with_def cpu_init_def)

lemmas machine_with_running = machine_with_fields(1)

text \<open>ADD R1, 0xFFFF and DIV R0, R1.\<close>

definition add_r1 :: Instruction where
  "add_r1 = \<lparr>instr_opcode = OP_ADD, instr_op1 = \<lparr>op_mode = MODE_REG, op_value = 1\<rparr>,
     instr_op2 = \<lparr>op_mode = MODE_IMM16, op_value = 0xFFFF\<rparr>\<rparr>"

lemma dec_add: "instruction_decode (vm_memory (machine_with (encode_instruction add_r1))) 0 = Inr (add_r1, 5)"
  by code_simp

text \<open>
  C3: one step of ADD, SUB, MUL, DIV, MOD, AND, OR, XOR, NOT, SHL or SHR, with a register or
  immediate source, computes the specified function of the operands over the integers, cut
  to 16 bits, sets Z and S from the result and C and O to the unsigned and signed overflow
  conditions (the last bit shifted out for the shifts), leaves the flags the instruction does
  not define and everything else alone, and moves PC past the instruction; DIV and MOD by 0
  halt the machine with VM_ERR_DIV_BY_ZERO and change no register, flag or memory byte.
\<close>

theorem vm_step_alu:
  assumes "vm_inv vm" "\<not> vm_halted vm"
    and "instruction_decode (vm_memory vm) (cpu_pc (vm_cpu vm)) = Inr (i, pc')"
    and "instr_opcode i \<in> alu_opcodes"
    and "a = cpu_r (vm_cpu vm) ! unat (op_value (instr_op1 i))" "b = src_value vm (instr_op2 i)"
  shows "if instr_opcode i \<in> {OP_DIV, OP_MOD} \<and> b = 0
    then vm_step vm h = Some (VM_ERR_DIV_BY_ZERO, (set_pc vm pc')\<lparr>vm_halted := True,
           vm_last_error := VM_ERR_DIV_BY_ZERO, vm_error_pc := cpu_pc (vm_cpu vm)\<rparr>, h)
    else \<exists>vm'. vm_step vm h = Some (VM_OK, vm', h) \<and>
           alu_effect (instr_opcode i) (op_value (instr_op1 i)) a b (set_pc vm pc') vm'"
proof -
  have wf: "instr_wf i" by (rule codec.decoded_wf [OF assms(3)])
  have regs: "vm_regs_ok (set_pc vm pc')" using vm_invD [OF assms(1)] by (simp add: vm_regs_ok_def)
  have src: "src_value (set_pc vm pc') (instr_op2 i) = b"
    by (simp add: assms(6) src_value_def cong: AddrMode.case_cong)
  show ?thesis
  proof (cases "instr_opcode i \<in> {OP_DIV, OP_MOD} \<and> b = 0")
    case True
    have "operand_wf (instr_op1 i)" using instr_wf_operands [OF wf] by simp
    with True wf have "op_value (instr_op1 i) \<le> 7" by (auto simp: instr_wf_def Let_def operand_wf_def)
    then have "instruction_execute (set_pc vm pc') h i = Some (VM_ERR_DIV_BY_ZERO, set_pc vm pc', h)"
      using True regs src instr_wf_operands [OF wf] vm_invD [OF assms(1)]
      by (auto simp: instruction_execute_def with_host_def exec_div_def exec_mod_def)
    with True show ?thesis using step_executes [OF assms(2,3)] by simp
  next
    case False
    with execute_alu [OF regs wf assms(4), of h] src assms(5) show ?thesis
      using step_executes [OF assms(2,3)] by auto
  qed
qed

theorem vm_step_alu_witness:
  "\<exists>vm'. vm_step (machine_with (encode_instruction add_r1)) \<lparr>host_in = [], host_out = []\<rparr>
      = Some (VM_OK, vm', \<lparr>host_in = [], host_out = []\<rparr>) \<and> cpu_r (vm_cpu vm') ! 1 = 0xFFFF
      \<and> cpu_get_flag (vm_cpu vm') CPU_FLAG_S \<and> \<not> cpu_get_flag (vm_cpu vm') CPU_FLAG_C"
proof -
  let ?vm = "machine_with (encode_instruction add_r1)"
  have d: "instruction_decode (vm_memory ?vm) (cpu_pc (vm_cpu ?vm)) = Inr (add_r1, 5)"
    using dec_add by simp
  show ?thesis
    using vm_step_alu [OF machine_with_inv machine_with_running d _ refl refl,
        of "\<lparr>host_in = [], host_out = []\<rparr>"]
    by (auto simp: add_r1_def alu_opcodes_def alu_effect_def src_value_def machine_with_def cpu_init_def)
qed

lemma mem_has_decode:
  assumes "instr_wf i" "mem_has (vm_memory vm) (cpu_pc (vm_cpu vm)) (encode_instruction i @ bs)"
  shows "instruction_decode (vm_memory vm) (cpu_pc (vm_cpu vm)) =
    Inr (i, cpu_pc (vm_cpu vm) + of_nat (length (encode_instruction i)))"
  using assms by (simp add: codec.decode_encoded)

lemma src_value_frame [simp]: "src_value (set_pc vm p) op = src_value vm op"
  by (simp add: src_value_def split: AddrMode.splits)

lemma effective_address_frame [simp]: "effective_address (set_pc vm p) op = effective_address vm op"
  by (simp add: effective_address_def split: AddrMode.splits)

text \<open>
  C6: CMP a, b followed by a conditional jump takes the jump exactly when the relation in the
  jump's name holds of a and b: JZ/JNZ equality, JG/JGE/JL/JLE the signed order, JB/JAE/JA/JBE
  the unsigned order, for every pair of 16-bit values, overflowing differences included. The
  two instructions change no register, no memory and not SP.
\<close>

theorem cmp_then_jump:
  assumes "vm_inv vm" "\<not> vm_halted vm"
    and "instr_wf i" "instr_opcode i = OP_CMP" "instr_wf j" "instr_opcode j \<in> jump_opcodes"
    and "mem_has (vm_memory vm) (cpu_pc (vm_cpu vm)) (encode_instruction i @ encode_instruction j)"
    and "a = src_value vm (instr_op1 i)" "b = src_value vm (instr_op2 i)"
  shows "\<exists>vm1 vm2. vm_step vm h = Some (VM_OK, vm1, h) \<and> vm_step vm1 h = Some (VM_OK, vm2, h) \<and>
    cpu_pc (vm_cpu vm2) =
      (if jump_taken (instr_opcode j) a b then op_value (instr_op1 j)
       else cpu_pc (vm_cpu vm) + of_nat (length (encode_instruction i @ encode_instruction j))) \<and>
    cpu_r (vm_cpu vm2) = cpu_r (vm_cpu vm) \<and> cpu_sp (vm_cpu vm2) = cpu_sp (vm_cpu vm) \<and>
    vm_memory vm2 = vm_memory vm"
proof -
  let ?p1 = "cpu_pc (vm_cpu vm) + of_nat (length (encode_instruction i))"
  let ?p2 = "?p1 + of_nat (length (encode_instruction j))"
  have regs: "vm_regs_ok (set_pc vm ?p1)" using vm_invD [OF assms(1)] by (simp add: vm_regs_ok_def)
  obtain vm1 where vm1: "instruction_execute (set_pc vm ?p1) h i = Some (VM_OK, vm1, h)"
    "vm1 = (set_pc vm ?p1)\<lparr>vm_cpu := (vm_cpu (set_pc vm ?p1))\<lparr>cpu_flags := cpu_flags (vm_cpu vm1)\<rparr>\<rparr>"
    "flags_compare (vm_cpu vm1) a b"
    using execute_cmp [OF regs assms(3,4), of h] assms(8,9) by auto
  have s1: "vm_step vm h = Some (VM_OK, vm1, h)"
    using step_executes [OF assms(2) mem_has_decode [OF assms(3,7)] vm1(1)] by simp
  have f1: "vm_memory vm1 = vm_memory vm" "cpu_pc (vm_cpu vm1) = ?p1" "\<not> vm_halted vm1"
    "cpu_r (vm_cpu vm1) = cpu_r (vm_cpu vm)" "cpu_sp (vm_cpu vm1) = cpu_sp (vm_cpu vm)"
    using assms(2) by (subst vm1(2); simp)+
  have "flags_compare (vm_cpu (set_pc vm1 ?p2)) a b" using vm1(3) by (simp add: flags_compare_def)
  from execute_jump [OF assms(6) this, of h]
  obtain vm2 where s2: "vm_step vm1 h = Some (VM_OK, vm2, h)"
    and vm2: "vm2 = (if jump_taken (instr_opcode j) a b
      then set_pc (set_pc vm1 ?p2) (op_value (instr_op1 j)) else set_pc vm1 ?p2)"
    using step_executes [OF f1(3) mem_has_decode [OF assms(5), of vm1 "[]"]] assms(7) f1 by simp
  show ?thesis using s1 s2 f1 by (intro exI [of _ vm1] exI [of _ vm2]) (simp add: vm2 add_ac)
qed

definition cmp_r0 :: Instruction where
  "cmp_r0 = \<lparr>instr_opcode = OP_CMP, instr_op1 = \<lparr>op_mode = MODE_REG, op_value = 0\<rparr>,
     instr_op2 = \<lparr>op_mode = MODE_IMM16, op_value = 0xFFFF\<rparr>\<rparr>"

theorem cmp_then_jump_witness:
  "\<exists>vm1 vm2. let vm = machine_with (encode_instruction cmp_r0 @ encode_instruction (jump_to OP_JG 0x40));
      h = \<lparr>host_in = [], host_out = []\<rparr>
    in vm_step vm h = Some (VM_OK, vm1, h) \<and> vm_step vm1 h = Some (VM_OK, vm2, h) \<and> cpu_pc (vm_cpu vm2) = 0x40"
proof -
  let ?i = cmp_r0 and ?j = "jump_to OP_JG 0x40" and ?h = "\<lparr>host_in = [], host_out = []\<rparr>"
  let ?vm = "machine_with (encode_instruction ?i @ encode_instruction ?j)"
  have "instr_wf ?i" "instr_wf ?j" "mem_has (vm_memory ?vm) (cpu_pc (vm_cpu ?vm)) (encode_instruction ?i @ encode_instruction ?j)"
    "jump_taken (instr_opcode ?j) (src_value ?vm (instr_op1 ?i)) (src_value ?vm (instr_op2 ?i))"
    by code_simp+
  moreover have "instr_opcode ?i = OP_CMP" "instr_opcode ?j \<in> jump_opcodes"
    by (simp_all add: cmp_r0_def jump_to_def jump_opcodes_def)
  ultimately show ?thesis
    using cmp_then_jump [where vm = ?vm and i = ?i and j = ?j and h = ?h, OF machine_with_inv machine_with_running _ _ _ _ _ refl refl]
    unfolding Let_def by (auto simp: jump_to_def)
qed

subsection \<open>Faults\<close>

definition execute_fault :: "VM \<Rightarrow> Instruction \<Rightarrow> VmResult" where
  "execute_fault vm i =
     (if instr_opcode i \<in> {OP_DIV, OP_MOD} \<and> src_value vm (instr_op2 i) = 0 then VM_ERR_DIV_BY_ZERO
      else if instr_opcode i \<in> {OP_PUSH, OP_CALL} \<and> \<not> stack_room vm then VM_ERR_STACK_OVERFLOW
      else if instr_opcode i \<in> {OP_POP, OP_RET} \<and> vm_stack vm = [] then VM_ERR_STACK_UNDERFLOW
      else if instr_opcode i = OP_SYS \<and> op_value (instr_op1 i) \<notin> {1, 2, 3, 4} then VM_ERR_INVALID_SYSCALL
      else VM_OK)"

definition step_fault :: "VM \<Rightarrow> VmResult" where
  "step_fault vm =
     (case instruction_decode (vm_memory vm) (cpu_pc (vm_cpu vm)) of
        Inl e \<Rightarrow> e | Inr (i, pc') \<Rightarrow> execute_fault vm i)"

text \<open>The program counter after the instruction has been read, or unchanged when it cannot be.\<close>

definition next_pc :: "VM \<Rightarrow> u16" where
  "next_pc vm =
     (case instruction_decode (vm_memory vm) (cpu_pc (vm_cpu vm)) of
        Inl e \<Rightarrow> cpu_pc (vm_cpu vm) | Inr (i, pc') \<Rightarrow> pc')"

lemma stack_room_frame [simp]: "stack_room (set_pc vm p) = stack_room vm"
  by (simp add: stack_room_def)

lemma execute_result:
  assumes "vm_inv vm" "instr_wf i" "instruction_execute vm h i = Some (res, vm', h')"
  shows "res = execute_fault vm i"
proof -
  note w = instr_wf_operands [OF assms(2)] and v = vm_invD [OF assms(1)]
  have l: "info_valid (opcode_info (instr_opcode i))"
    "mode_is_legal (op_mode (instr_op1 i)) (info_op1_modes (opcode_info (instr_opcode i)))"
    "mode_is_legal (op_mode (instr_op2 i)) (info_op2_modes (opcode_info (instr_opcode i)))"
    using assms(2) by (auto simp: instr_wf_def Let_def)
  show ?thesis
    using assms(3) v w l
    by (cases "instr_opcode i")
      (auto simp: execute_fault_def instruction_execute_def with_host_def exec_defs Let_def case_prod_beta operand_wf_reg
         stack_room_def vm_stack_empty [OF assms(1)] split: if_splits)
qed
lemma vm_stack_frame [simp]: "vm_stack (set_pc vm p) = vm_stack vm"
  by (simp add: vm_stack_def)

lemma execute_fault_frame [simp]: "execute_fault (set_pc vm p) i = execute_fault vm i"
  by (simp add: execute_fault_def)

text \<open>
  C7: a step of a running machine reports an error in exactly these cases: undecodable bytes
  (the decoder's error), division by 0, PUSH or CALL without room above the stack limit, POP
  or RET on the empty stack, an unknown system call. The machine is then halted with that
  error and the address of the faulting instruction recorded, registers, flags, SP, memory and
  console are untouched, and every later step reports the same error and changes nothing.
\<close>

theorem vm_step_fault_exact:
  assumes "vm_inv vm" "\<not> vm_halted vm"
  shows "\<exists>vm' h'. vm_step vm h = Some (step_fault vm, vm', h') \<and>
    (step_fault vm \<noteq> VM_OK \<longrightarrow>
       vm' = (set_pc vm (next_pc vm))\<lparr>vm_halted := True, vm_last_error := step_fault vm,
                vm_error_pc := cpu_pc (vm_cpu vm)\<rparr> \<and> h' = h \<and>
       (\<forall>h''. vm_step vm' h'' = Some (step_fault vm, vm', h'')))"
  using assms(1)
proof (cases rule: vm_step_cases [where h = h])
  case (decode e)
  then show ?thesis by (simp add: step_fault_def next_pc_def) (simp add: vm_step_def)
next
  case (fault i pc' e)
  have "vm_inv (set_pc vm pc')" using assms(1) by simp
  from execute_result [OF this fault(3,4)] fault(2) have "step_fault vm = e" by (simp add: step_fault_def)
  with fault show ?thesis by (simp add: next_pc_def) (simp add: vm_step_def)
next
  case (ok i pc' vm' h')
  have "vm_inv (set_pc vm pc')" using assms(1) by simp
  from execute_result [OF this ok(3,4)] ok(2) have "step_fault vm = VM_OK" by (simp add: step_fault_def)
  with ok show ?thesis by simp
qed (use assms in simp)

theorem vm_step_fault_exact_witness:
  "\<exists>vm' h'. vm_step (machine_with [opcode_code OP_RET, 0]) \<lparr>host_in = [], host_out = []\<rparr>
    = Some (VM_ERR_STACK_UNDERFLOW, vm', h') \<and> vm_halted vm' \<and> vm_last_error vm' = VM_ERR_STACK_UNDERFLOW"
proof -
  let ?vm = "machine_with [opcode_code OP_RET, 0]"
  have d: "instruction_decode (vm_memory ?vm) (cpu_pc (vm_cpu ?vm)) =
      Inr (\<lparr>instr_opcode = OP_RET, instr_op1 = no_operand, instr_op2 = no_operand\<rparr>, 2)"
    by code_simp
  have "vm_stack ?vm = []"
    by (simp add: vm_stack_empty)
  with d have "step_fault ?vm = VM_ERR_STACK_UNDERFLOW" by (simp add: step_fault_def execute_fault_def)
  then show ?thesis
    using vm_step_fault_exact [OF machine_with_inv machine_with_running,
        of "[opcode_code OP_RET, 0]" "\<lparr>host_in = [], host_out = []\<rparr>"]
    by auto
qed

subsection \<open>Runs\<close>

locale state_machine =
  fixes step :: "'s \<Rightarrow> ('r \<times> 's) option"
    and inv :: "'s \<Rightarrow> bool"
  assumes step_total: "inv s \<Longrightarrow> \<exists>r s'. step s = Some (r, s') \<and> inv s'"
begin

lemma step_keeps_inv: "inv s \<Longrightarrow> step s = Some (r, s') \<Longrightarrow> inv s'"
  using step_total [of s] by auto

lemma step_defined: "inv s \<Longrightarrow> step s \<noteq> None"
  using step_total [of s] by auto

text \<open>Every invariant state runs for any number of steps, through invariant states.\<close>

lemma runs_for:
  assumes "inv s"
  shows "\<exists>tr. length tr = n \<and> list_all inv tr \<and>
    (\<forall>k < n. \<exists>r. step ((s # tr) ! k) = Some (r, tr ! k))"
  using assms
proof (induction n arbitrary: s)
  case (Suc n)
  from step_total [OF Suc.prems] obtain r s' where s': "step s = Some (r, s')" "inv s'" by blast
  from Suc.IH [OF s'(2)] obtain tr where tr: "length tr = n" "list_all inv tr"
    "\<forall>k < n. \<exists>r. step ((s' # tr) ! k) = Some (r, tr ! k)" by blast
  have "\<exists>r. step ((s # s' # tr) ! k) = Some (r, (s' # tr) ! k)" if "k < Suc n" for k
    using that s'(1) tr(3) by (cases k) auto
  with s' tr show ?case by (intro exI [of _ "s' # tr"]) simp
qed simp

end

definition machine_step :: "VM \<times> Host \<Rightarrow> (VmResult \<times> VM \<times> Host) option" where
  "machine_step s = vm_step (fst s) (snd s)"

interpretation vm_machine: state_machine machine_step "\<lambda>s. vm_inv (fst s)"
proof
  fix s :: "VM \<times> Host" assume "vm_inv (fst s)"
  from vm_step_inv [OF this, of "snd s"]
  show "\<exists>r s'. machine_step s = Some (r, s') \<and> vm_inv (fst s')"
    by (auto simp: machine_step_def)
qed

inductive vm_reaches :: "VM \<Rightarrow> Host \<Rightarrow> VM \<Rightarrow> Host \<Rightarrow> bool" where
  reaches_refl: "vm_reaches vm h vm h"
| reaches_step: "vm_step vm h = Some (r, vm1, h1) \<Longrightarrow> vm_reaches vm1 h1 vm2 h2 \<Longrightarrow> vm_reaches vm h vm2 h2"

lemma vm_reaches_inv:
  assumes "vm_reaches vm h vm' h'" "vm_inv vm"
  shows "vm_inv vm' \<and> vm_stack_limit vm' = vm_stack_limit vm"
  using assms
proof (induction rule: vm_reaches.induct)
  case (reaches_step vm h r vm1 h1 vm2 h2)
  from vm_step_inv [OF reaches_step.prems, of h] reaches_step show ?case by auto
qed simp

text \<open>
  C16: from a machine that satisfies the invariant (eight registers, reserved flag bits zero, an
  even SP that is 0xFFFE or at least the stack limit, an error only when halted), every
  machine reached by any number of steps and any console input satisfies it again, with the
  same stack limit, and can step: no step reads or writes outside the register array.
\<close>

theorem vm_step_safe:
  assumes "vm_inv vm" "vm_reaches vm h vm' h'"
  shows "vm_inv vm' \<and> vm_stack_limit vm' = vm_stack_limit vm \<and> (\<exists>r vm'' h''. vm_step vm' h' = Some (r, vm'', h''))"
  using vm_reaches_inv [OF assms(2,1)] vm_step_inv [of vm' h'] by blast

theorem vm_step_safe_witness:
  "\<exists>r vm'' h''. vm_step (machine_with []) \<lparr>host_in = [], host_out = []\<rparr> = Some (r, vm'', h'')"
  using vm_step_safe [OF machine_with_inv reaches_refl] by blast

lemma ret_instr_wf [simp]: "instr_wf ret_instr"
  by (code_simp)

lemma call_instr_wf [simp]: "instr_wf (jump_to OP_CALL t)"
  by (simp add: instr_wf_def Let_def jump_to_def no_operand_def operand_wf_def)
     (simp add: MODES_MEM_DIRECT_def MODES_NONE_def mode_is_legal_def MODE_BIT_def)

lemma call_length [simp]: "length (encode_instruction (jump_to OP_CALL t)) = 4"
  by (simp add: encode_instruction_def encode_operand_def jump_to_def no_operand_def)

subsection \<open>Memory\<close>

lemma step_memory_change:
  assumes "vm_inv vm" "vm_step vm h = Some (r, vm', h')"
    and "mem_read8 (vm_memory vm') a \<noteq> mem_read8 (vm_memory vm) a"
  shows "\<exists>i pc'. instruction_decode (vm_memory vm) (cpu_pc (vm_cpu vm)) = Inr (i, pc') \<and>
    (instr_opcode i = OP_STORE \<and> (a = effective_address vm (instr_op1 i) \<or> a = effective_address vm (instr_op1 i) + 1)
     \<or> instr_opcode i \<in> {OP_PUSH, OP_CALL} \<and> (a = cpu_sp (vm_cpu vm) \<or> a = cpu_sp (vm_cpu vm) + 1)
       \<and> unat (vm_stack_limit vm) + 2 \<le> unat a)"
  using assms(1)
proof (cases rule: vm_step_cases [where h = h])
  case (ok i pc' vm1 h1)
  let ?vm = "set_pc vm pc'"
  have inv: "vm_inv ?vm" using assms(1) by simp
  have vm': "vm' = vm1" using ok(7) assms(2) by simp
  note mem = execute_memory [OF inv ok(3,4)]
  show ?thesis
  proof (cases "instr_opcode i = OP_PUSH \<or> instr_opcode i = OP_CALL")
    case True
    have a: "a = cpu_sp (vm_cpu vm) \<or> a = cpu_sp (vm_cpu vm) + 1"
      using mem assms(3) True by (auto simp: vm' vm_mem.rd8_wr16 split: if_splits)
    have "\<not> (cpu_sp (vm_cpu vm) < 2 \<or> cpu_sp (vm_cpu vm) - 2 < vm_stack_limit vm)"
      using execute_push_room [OF inv ok(3,4) True] by simp
    note room = push_sp [OF this vm_inv_even_sp [OF assms(1)]]
    have "unat (cpu_sp (vm_cpu vm) + 1) = unat (cpu_sp (vm_cpu vm)) + 1"
      by (rule unat_succ_even [OF vm_inv_even_sp [OF assms(1)]])
    with a room have "unat (vm_stack_limit vm) + 2 \<le> unat a" by (auto simp: word_le_nat_alt)
    with a True ok(2) show ?thesis by auto
  next
    case False
    then show ?thesis using mem assms(3) ok(2)
      by (auto simp: vm' vm_mem.rd8_wr16 split: if_splits Opcode.splits)
  qed
qed (use assms in auto)

text \<open>
  C17: a step changes a memory byte only as a STORE to its two addressed bytes or as a PUSH or
  CALL to the two bytes at SP, and the latter are at least two bytes above the stack limit: the
  stack cannot overwrite the loaded program.
\<close>

theorem vm_step_memory:
  assumes "vm_inv vm" "vm_step vm h = Some (r, vm', h')"
    and "mem_read8 (vm_memory vm') a \<noteq> mem_read8 (vm_memory vm) a"
  shows "\<exists>i pc'. instruction_decode (vm_memory vm) (cpu_pc (vm_cpu vm)) = Inr (i, pc') \<and>
    (instr_opcode i = OP_STORE \<and> (a = effective_address vm (instr_op1 i) \<or> a = effective_address vm (instr_op1 i) + 1)
     \<or> instr_opcode i \<in> {OP_PUSH, OP_CALL} \<and> (a = cpu_sp (vm_cpu vm) \<or> a = cpu_sp (vm_cpu vm) + 1)
       \<and> unat (vm_stack_limit vm) + 2 \<le> unat a)"
  by (rule step_memory_change [OF assms])

theorem vm_step_memory_witness:
  "\<exists>i pc'. instruction_decode (vm_memory (machine_with (encode_instruction (jump_to OP_CALL 4)))) 0 = Inr (i, pc') \<and>
    instr_opcode i \<noteq> OP_STORE"
proof -
  let ?vm = "machine_with (encode_instruction (jump_to OP_CALL 4))" and ?h = "\<lparr>host_in = [], host_out = []\<rparr>"
  have "case vm_step ?vm ?h of Some (r, vm', h') \<Rightarrow>
      mem_read8 (vm_memory vm') 0xFFFE \<noteq> mem_read8 (vm_memory ?vm) 0xFFFE | None \<Rightarrow> False"
    by code_simp
  then obtain r vm' h' where "vm_step ?vm ?h = Some (r, vm', h')"
    "mem_read8 (vm_memory vm') 0xFFFE \<noteq> mem_read8 (vm_memory ?vm) 0xFFFE"
    by (auto split: option.splits)
  note w = vm_step_memory [OF machine_with_inv this]
  have "mem_has (vm_memory ?vm) 0 (encode_instruction (jump_to OP_CALL 4))" by code_simp
  from w codec.decode_encoded [OF call_instr_wf this]
  show ?thesis by (auto simp: jump_to_def)
qed

subsection \<open>Calls\<close>

lemma step_call:
  assumes "vm_inv vm" "\<not> vm_halted vm" "stack_room vm"
    and "mem_has (vm_memory vm) (cpu_pc (vm_cpu vm)) (encode_instruction (jump_to OP_CALL t))"
  shows "\<exists>vm1. vm_step vm h = Some (VM_OK, vm1, h) \<and> cpu_pc (vm_cpu vm1) = t \<and>
    call_from t (cpu_pc (vm_cpu vm) + 4) vm = Some vm1"
proof -
  have "instruction_execute (set_pc vm (cpu_pc (vm_cpu vm) + 4)) h (jump_to OP_CALL t) =
      with_host h (exec_call (set_pc vm (cpu_pc (vm_cpu vm) + 4)) (jump_to OP_CALL t))"
    by (simp add: instruction_execute_def jump_to_def)
  moreover obtain vm1 where "exec_call (set_pc vm (cpu_pc (vm_cpu vm) + 4)) (jump_to OP_CALL t) = Some (VM_OK, vm1)"
    "cpu_pc (vm_cpu vm1) = t"
    using assms(3) by (simp add: exec_call_def Let_def stack_room_def jump_to_def)
  ultimately show ?thesis
    using step_executes [OF assms(2) mem_has_decode [OF call_instr_wf, of _ t "[]"]] assms(4)
    by (auto simp: with_host_def call_from_def)
qed

lemma step_ret:
  assumes "\<not> vm_halted vm" "mem_has (vm_memory vm) (cpu_pc (vm_cpu vm)) (encode_instruction ret_instr)"
    and "ret_to (set_pc vm (cpu_pc (vm_cpu vm) + of_nat (length (encode_instruction ret_instr)))) = Some (ra, vm1)"
  shows "vm_step vm h = Some (VM_OK, vm1, h) \<and> cpu_pc (vm_cpu vm1) = ra"
  using step_executes [OF assms(1) mem_has_decode [OF ret_instr_wf, of _ "[]"]] assms(2,3)
  by (auto simp: instruction_execute_def ret_instr_def with_host_def ret_to_def split: option.splits prod.splits VmResult.splits)

text \<open>
  C31: CALL pushes the address of the next instruction and jumps; whatever the called code does
  in between, a RET executed when the stack is again as CALL left it continues at that
  address, with the stack as it was before the CALL.
\<close>

theorem call_ret_returns:
  assumes "vm_inv vm" "\<not> vm_halted vm" "stack_room vm"
    and "mem_has (vm_memory vm) (cpu_pc (vm_cpu vm)) (encode_instruction (jump_to OP_CALL t))"
  shows "\<exists>vm1. vm_step vm h = Some (VM_OK, vm1, h) \<and> cpu_pc (vm_cpu vm1) = t \<and>
    vm_stack vm1 = (cpu_pc (vm_cpu vm) + 4) # vm_stack vm \<and>
    (\<forall>vm2 h2. vm_reaches vm1 h vm2 h2 \<and> \<not> vm_halted vm2 \<and> vm_stack vm2 = vm_stack vm1 \<and>
       mem_has (vm_memory vm2) (cpu_pc (vm_cpu vm2)) (encode_instruction ret_instr) \<longrightarrow>
       (\<exists>vm3. vm_step vm2 h2 = Some (VM_OK, vm3, h2) \<and> cpu_pc (vm_cpu vm3) = cpu_pc (vm_cpu vm) + 4 \<and>
          vm_stack vm3 = vm_stack vm))"
proof -
  from step_call [OF assms, of h] obtain vm1 where
    s1: "vm_step vm h = Some (VM_OK, vm1, h)" "cpu_pc (vm_cpu vm1) = t"
      "call_from t (cpu_pc (vm_cpu vm) + 4) vm = Some vm1" by blast
  from call_stack.push_room [OF assms(1,3) TrueI, of t "cpu_pc (vm_cpu vm) + 4"] s1(3)
  have i1: "vm_inv vm1" "vm_stack vm1 = (cpu_pc (vm_cpu vm) + 4) # vm_stack vm" by auto
  have ret: "\<exists>vm3. vm_step vm2 h2 = Some (VM_OK, vm3, h2) \<and>
      cpu_pc (vm_cpu vm3) = cpu_pc (vm_cpu vm) + 4 \<and> vm_stack vm3 = vm_stack vm"
    if "vm_reaches vm1 h vm2 h2" "\<not> vm_halted vm2" "vm_stack vm2 = vm_stack vm1"
      "mem_has (vm_memory vm2) (cpu_pc (vm_cpu vm2)) (encode_instruction ret_instr)" for vm2 h2
  proof -
    let ?vm2 = "set_pc vm2 (cpu_pc (vm_cpu vm2) + of_nat (length (encode_instruction ret_instr)))"
    have "vm_inv ?vm2" "vm_stack ?vm2 = vm_stack vm1"
      using vm_reaches_inv [OF that(1) i1(1)] that(3) by simp_all
    from call_stack.balanced_pop [OF assms(1) TrueI s1(3) this(1) TrueI this(2)] obtain vm3 where
      "ret_to ?vm2 = Some (cpu_pc (vm_cpu vm) + 4, vm3)" "vm_stack vm3 = vm_stack vm" by blast
    with step_ret [OF that(2,4) this(1)] show ?thesis by blast
  qed
  show ?thesis using s1 i1 ret by blast
qed

theorem call_ret_returns_witness:
  "\<exists>vm1 vm3. let vm = machine_with (encode_instruction (jump_to OP_CALL 4) @ encode_instruction ret_instr);
      h = \<lparr>host_in = [], host_out = []\<rparr>
    in vm_step vm h = Some (VM_OK, vm1, h) \<and> vm_stack vm1 = [4] \<and>
       vm_step vm1 h = Some (VM_OK, vm3, h) \<and> cpu_pc (vm_cpu vm3) = 4 \<and> vm_stack vm3 = []"
proof -
  let ?vm = "machine_with (encode_instruction (jump_to OP_CALL 4) @ encode_instruction ret_instr)"
  let ?h = "\<lparr>host_in = [], host_out = []\<rparr>"
  have "mem_has (vm_memory ?vm) (cpu_pc (vm_cpu ?vm)) (encode_instruction (jump_to OP_CALL 4))" by code_simp
  moreover have "stack_room ?vm" by code_simp
  ultimately obtain vm1 where s1: "vm_step ?vm ?h = Some (VM_OK, vm1, ?h)" "cpu_pc (vm_cpu vm1) = 4"
    "vm_stack vm1 = [4]" and ret: "vm_reaches vm1 ?h vm1 ?h \<Longrightarrow> \<not> vm_halted vm1 \<Longrightarrow>
      mem_has (vm_memory vm1) (cpu_pc (vm_cpu vm1)) (encode_instruction ret_instr) \<Longrightarrow>
      \<exists>vm3. vm_step vm1 ?h = Some (VM_OK, vm3, ?h) \<and> cpu_pc (vm_cpu vm3) = 4 \<and> vm_stack vm3 = []"
    using call_ret_returns [OF machine_with_inv machine_with_running, of _ 4 ?h] vm_stack_empty [of ?vm]
    by fastforce
  have "case vm_step ?vm ?h of Some (r, vm1, h1) \<Rightarrow> \<not> vm_halted vm1 \<and>
      mem_has (vm_memory vm1) (cpu_pc (vm_cpu vm1)) (encode_instruction ret_instr) | None \<Rightarrow> False"
    by code_simp
  with ret [OF reaches_refl] s1 show ?thesis by (auto simp: Let_def)
qed

subsection \<open>The data stack\<close>

lemma push_from_keeps:
  "push_from x vm = Some vm' \<Longrightarrow> vm_stack_limit vm' = vm_stack_limit vm \<and> cpu_r (vm_cpu vm') = cpu_r (vm_cpu vm)"
  by (auto simp: push_from_def exec_push_def Let_def split: if_splits option.splits)

lemma push_all_room:
  assumes "vm_inv vm" "list_all operand_wf xs"
    and "unat (vm_stack_limit vm) + 2 * length (vm_stack vm) + 2 * length xs \<le> 0xFFFE"
  shows "\<exists>vm'. push_all push_from xs vm = Some vm' \<and> cpu_r (vm_cpu vm') = cpu_r (vm_cpu vm)"
  using assms
proof (induction xs arbitrary: vm)
  case (Cons x xs)
  have "stack_room vm" "operand_wf x" using Cons.prems by (simp_all add: stack_room_iff)
  from data_stack.push_room [OF Cons.prems(1) this] obtain vm1 where
    vm1: "push_from x vm = Some vm1" "vm_inv vm1" "vm_stack vm1 = src_value vm x # vm_stack vm" by blast
  with Cons.IH [OF vm1(2)] Cons.prems push_from_keeps [OF vm1(1)] show ?case by simp
qed simp

text \<open>
  C32: PUSH and POP are last-in first-out. With two free bytes above the stack limit for each
  word, pushing any list of well-formed operands (any registers and immediates) succeeds, puts
  their values on the stack and changes no register; popping as many words into any registers then
  loads them with those values in reverse order, one after the other, changes no other
  register, and restores SP and the stack below.
\<close>

theorem push_pop_lifo:
  assumes "vm_inv vm" "list_all operand_wf xs" "list_all (\<lambda>r. r \<le> 7) rs" "length rs = length xs"
    and "unat (vm_stack_limit vm) + 2 * length (vm_stack vm) + 2 * length xs \<le> 0xFFFE"
  shows "\<exists>vm1 vm2. push_all push_from xs vm = Some vm1 \<and>
    vm_stack vm1 = rev (map (src_value vm) xs) @ vm_stack vm \<and> cpu_r (vm_cpu vm1) = cpu_r (vm_cpu vm) \<and>
    pop_all pop_to rs vm1 = Some (rev (map (src_value vm) xs), vm2) \<and>
    cpu_r (vm_cpu vm2) =
      fold (\<lambda>(r, v) regs. regs[unat r := v]) (zip rs (rev (map (src_value vm) xs))) (cpu_r (vm_cpu vm)) \<and>
    vm_stack vm2 = vm_stack vm \<and> cpu_sp (vm_cpu vm2) = cpu_sp (vm_cpu vm)"
proof -
  from push_all_room [OF assms(1,2,5)] obtain vm1 where
    vm1: "push_all push_from xs vm = Some vm1" "cpu_r (vm_cpu vm1) = cpu_r (vm_cpu vm)" by blast
  from data_stack.push_all_contents [OF assms(1,2) vm1(1)]
  have c: "vm_inv vm1" "vm_stack vm1 = rev (map (src_value vm) xs) @ vm_stack vm" by auto
  from data_stack.push_all_pop_all [OF assms(1,2) vm1(1) assms(3,4)] obtain vm2 where
    vm2: "pop_all pop_to rs vm1 = Some (rev (map (src_value vm) xs), vm2)" "vm_inv vm2" "vm_stack vm2 = vm_stack vm" by blast
  have "cpu_sp (vm_cpu vm2) = cpu_sp (vm_cpu vm)"
    using vm_stack_depth [OF assms(1)] vm_stack_depth [OF vm2(2)] vm2(3) by (simp add: word_unat_eq_iff)
  with vm1 vm2 c pop_all_registers [OF vm2(1) assms(3) c(1)] show ?thesis by auto
qed

theorem push_pop_lifo_witness:
  "\<exists>vm1 vm2. push_all push_from [\<lparr>op_mode = MODE_IMM16, op_value = 7\<rparr>, \<lparr>op_mode = MODE_REG, op_value = 3\<rparr>] (machine_with []) = Some vm1 \<and>
    vm_stack vm1 = [0, 7] \<and> pop_all pop_to [2, 5] vm1 = Some ([0, 7], vm2) \<and> cpu_r (vm_cpu vm2) ! 5 = 7"
proof -
  let ?xs = "[\<lparr>op_mode = MODE_IMM16, op_value = 7\<rparr>, \<lparr>op_mode = MODE_REG, op_value = 3 :: u16\<rparr>]" and ?vm = "machine_with []"
  have "vm_stack ?vm = []" by (simp add: vm_stack_empty)
  moreover have "map (src_value ?vm) ?xs = [7, 0]" "length (cpu_r (vm_cpu ?vm)) = 8" "list_all operand_wf ?xs" by code_simp+
  moreover have "unat (vm_stack_limit ?vm) = 16" by (simp add: machine_with_def)
  ultimately show ?thesis
    using push_pop_lifo [OF machine_with_inv, of ?xs "[2, 5]" "[]"] by auto
qed

subsection \<open>Console\<close>

definition sys_instr :: "u16 \<Rightarrow> Instruction" where
  "sys_instr code = \<lparr>instr_opcode = OP_SYS, instr_op1 = \<lparr>op_mode = MODE_IMM8, op_value = code\<rparr>,
     instr_op2 = no_operand\<rparr>"

lemma digit_not_special: "is_digit c \<Longrightarrow> \<not> is_input_space c \<and> c \<noteq> CHR ''-''"
  by (auto simp: is_digit_def is_input_space_def)

lemma read_int_spec_print:
  assumes "rest = [] \<or> \<not> is_digit (hd rest)"
  shows "read_int_spec (fmt_d i @ rest) = (i, rest)"
proof -
  have *: "\<exists>c cs. show_base 10 n = c # cs \<and> is_digit c" for n
    using show_base_digits [of n] show_base_not_nil [of 10 n] by (cases "show_base 10 n") auto
  note t = takeWhile_digits [OF show_base_digits assms]
  show ?thesis
  proof (cases "i < 0")
    case True
    then show ?thesis
      using t [of "nat (- i)"]
      by (simp add: read_int_spec_def fmt_d_def is_input_space_def dec_value_show_base)
  next
    case False
    obtain c cs where c: "show_base 10 (nat i) = c # cs" "is_digit c" using * by blast
    have "dropWhile is_input_space (show_base 10 (nat i) @ rest) = show_base 10 (nat i) @ rest"
      using c digit_not_special by simp
    then show ?thesis
      using False t [of "nat i"] c digit_not_special [OF c(2)] dec_value_show_base [of "nat i"]
      by (simp add: read_int_spec_def fmt_d_def)
  qed
qed

text \<open>
  C34: READ_INT skips white space, takes an optional minus sign and the longest run of digits,
  puts the number modulo 65536 in R0 (0 when there is no digit), and leaves the input at the
  first character after the number; however long the number is.
\<close>

theorem read_int_value:
  assumes "vm_inv vm"
  shows "exec_sys vm h (sys_instr 3) =
    Some (VM_OK, vm\<lparr>vm_cpu := (vm_cpu vm)\<lparr>cpu_r := (cpu_r (vm_cpu vm))[0 := word_of_int (fst (read_int_spec (host_in h)))]\<rparr>\<rparr>,
          h\<lparr>host_in := snd (read_int_spec (host_in h))\<rparr>)"
  using vm_invD [OF assms] by (simp add: exec_sys_def sys_instr_def read_int_from_stdin_spec)

text \<open>
  C35: PRINT_INT followed by READ_INT is the identity on R0: the text printed for a register
  value, followed by anything that does not start with a digit, is read back as that value
  and the rest is left unread.
\<close>

theorem print_read_int:
  assumes "vm_inv vm" "vm_inv vm2" "rest = [] \<or> \<not> is_digit (hd rest)"
  shows "\<exists>s. exec_sys vm h (sys_instr 1) = Some (VM_OK, vm, h\<lparr>host_out := host_out h @ s\<rparr>) \<and>
    exec_sys vm2 (h2\<lparr>host_in := s @ rest\<rparr>) (sys_instr 3) =
      Some (VM_OK, vm2\<lparr>vm_cpu := (vm_cpu vm2)\<lparr>cpu_r := (cpu_r (vm_cpu vm2))[0 := cpu_r (vm_cpu vm) ! 0]\<rparr>\<rparr>,
            h2\<lparr>host_in := rest\<rparr>)"
  using vm_invD [OF assms(1)] vm_invD [OF assms(2)] read_int_spec_print [OF assms(3)]
  by (intro exI [of _ "fmt_d (sint (cpu_r (vm_cpu vm) ! 0))"]) (simp add: exec_sys_def sys_instr_def read_int_from_stdin_spec putstr_def)

theorem print_read_int_witness:
  "\<exists>s. exec_sys (machine_with []) \<lparr>host_in = [], host_out = ''> ''\<rparr> (sys_instr 1) =
      Some (VM_OK, machine_with [], \<lparr>host_in = [], host_out = ''> '' @ s\<rparr>) \<and>
    exec_sys (machine_with []) \<lparr>host_in = s @ ''x'', host_out = []\<rparr> (sys_instr 3) =
      Some (VM_OK, machine_with [], \<lparr>host_in = ''x'', host_out = []\<rparr>)"
proof -
  have "(machine_with [])\<lparr>vm_cpu := (vm_cpu (machine_with []))\<lparr>cpu_r := (cpu_r (vm_cpu (machine_with [])))
      [0 := cpu_r (vm_cpu (machine_with [])) ! 0]\<rparr>\<rparr> = machine_with []"
    by (simp only: list_update_id) simp
  then show ?thesis
    using print_read_int [OF machine_with_inv machine_with_inv, of "''x''" "[]" "\<lparr>host_in = [], host_out = ''> ''\<rparr>"
        "[]" "\<lparr>host_in = [], host_out = []\<rparr>"]
    by (simp add: is_digit_def)
qed

theorem read_int_value_witness:
  "\<exists>vm' h'. exec_sys (machine_with []) \<lparr>host_in = '' -12;'', host_out = []\<rparr> (sys_instr 3) = Some (VM_OK, vm', h') \<and>
     cpu_r (vm_cpu vm') ! 0 = 0xFFF4 \<and> host_in h' = '';''"
proof -
  have "read_int_spec '' -12;'' = (-12, '';'')" by code_simp
  then show ?thesis
    using read_int_value [OF machine_with_inv, of "[]" "\<lparr>host_in = '' -12;'', host_out = []\<rparr>"]
    by (simp add: machine_with_def cpu_init_def)
qed

lemma mem_has_write16:
  assumes "\<forall>k < length bs. a \<noteq> p + of_nat k \<and> a + 1 \<noteq> p + of_nat k"
  shows "mem_has (mem_write16 mem a v) p bs = mem_has mem p bs"
  using assms
proof (induction bs arbitrary: p)
  case (Cons b bs)
  have "\<forall>k < length bs. a \<noteq> (p + 1) + of_nat k \<and> a + 1 \<noteq> (p + 1) + of_nat k"
  proof (intro allI impI)
    fix k assume "k < length bs"
    then show "a \<noteq> (p + 1) + of_nat k \<and> a + 1 \<noteq> (p + 1) + of_nat k"
      using Cons.prems [rule_format, of "Suc k"] by (simp add: add.assoc)
  qed
  moreover have "a \<noteq> p \<and> a + 1 \<noteq> p" using Cons.prems [rule_format, of 0] by simp
  then have "mem_read8 (mem_write16 mem a v) p = mem_read8 mem p"
    by (auto simp: vm_mem.rd8_wr16)
  ultimately show ?case using Cons.IH [of "p + 1"] by simp
qed simp

lemma execute_store:
  assumes "vm_inv vm" "instr_wf i" "instr_opcode i = OP_STORE"
  shows "instruction_execute vm h i = Some (VM_OK, vm\<lparr>vm_memory := mem_write16 (vm_memory vm)
    (effective_address vm (instr_op1 i)) (cpu_r (vm_cpu vm) ! unat (op_value (instr_op2 i)))\<rparr>, h)"
proof -
  have "op_value (instr_op2 i) \<le> 7"
    using assms(2,3) instr_wf_operands [OF assms(2)] by (auto simp: instr_wf_def Let_def operand_wf_def)
  then show ?thesis using assms instr_wf_operands [OF assms(2)] vm_invD [OF assms(1)]
    by (simp add: instruction_execute_def with_host_def exec_store_def)
qed

lemma execute_load:
  assumes "vm_inv vm" "instr_wf i" "instr_opcode i = OP_LOAD"
  shows "instruction_execute vm h i = Some (VM_OK, vm\<lparr>vm_cpu := (vm_cpu vm)\<lparr>cpu_r := (cpu_r (vm_cpu vm))
    [unat (op_value (instr_op1 i)) := mem_read16 (vm_memory vm) (effective_address vm (instr_op2 i))]\<rparr>\<rparr>, h)"
proof -
  have "op_value (instr_op1 i) \<le> 7"
    using assms(2,3) instr_wf_operands [OF assms(2)] by (auto simp: instr_wf_def Let_def operand_wf_def)
  then show ?thesis using assms instr_wf_operands [OF assms(2)] vm_invD [OF assms(1)]
    by (simp add: instruction_execute_def with_host_def exec_load_def)
qed

text \<open>
  C33: STORE followed by LOAD from the same memory operand (direct or through a register) moves
  the value between the two registers, provided the stored word does not overwrite the LOAD
  instruction itself; the address may be 0xFFFF.
\<close>

theorem store_then_load:
  assumes "vm_inv vm" "\<not> vm_halted vm"
    and "instr_wf st" "instr_opcode st = OP_STORE" "instr_wf ld" "instr_opcode ld = OP_LOAD"
    and "instr_op2 ld = instr_op1 st"
    and "mem_has (vm_memory vm) (cpu_pc (vm_cpu vm)) (encode_instruction st @ encode_instruction ld)"
    and "\<forall>k < length (encode_instruction ld).
      effective_address vm (instr_op1 st) \<noteq> cpu_pc (vm_cpu vm) + of_nat (length (encode_instruction st)) + of_nat k \<and>
      effective_address vm (instr_op1 st) + 1 \<noteq> cpu_pc (vm_cpu vm) + of_nat (length (encode_instruction st)) + of_nat k"
  shows "\<exists>vm1 vm2. vm_step vm h = Some (VM_OK, vm1, h) \<and> vm_step vm1 h = Some (VM_OK, vm2, h) \<and>
    cpu_r (vm_cpu vm2) = (cpu_r (vm_cpu vm))[unat (op_value (instr_op1 ld)) :=
      cpu_r (vm_cpu vm) ! unat (op_value (instr_op2 st))] \<and>
    mem_read16 (vm_memory vm2) (effective_address vm (instr_op1 st)) =
      cpu_r (vm_cpu vm) ! unat (op_value (instr_op2 st))"
proof -
  let ?p1 = "cpu_pc (vm_cpu vm) + of_nat (length (encode_instruction st))"
  let ?p2 = "?p1 + of_nat (length (encode_instruction ld))"
  let ?ea = "effective_address vm (instr_op1 st)" and ?v = "cpu_r (vm_cpu vm) ! unat (op_value (instr_op2 st))"
  define vm1 where "vm1 = (set_pc vm ?p1)\<lparr>vm_memory := mem_write16 (vm_memory vm) ?ea ?v\<rparr>"
  have inv: "vm_inv (set_pc vm ?p1)" "vm_inv (set_pc vm1 ?p2)" using assms(1) by (simp_all add: vm1_def vm_inv_def)
  have s1: "vm_step vm h = Some (VM_OK, vm1, h)"
    using step_executes [OF assms(2) mem_has_decode [OF assms(3,8)]]
      execute_store [OF inv(1) assms(3,4), of h] by (simp add: vm1_def)
  have "mem_has (vm_memory vm1) (cpu_pc (vm_cpu vm1)) (encode_instruction ld @ [])"
    using assms(8) mem_has_write16 [OF assms(9)] by (simp add: vm1_def)
  note dec = mem_has_decode [OF assms(5) this]
  have ea: "effective_address (set_pc vm1 ?p2) (instr_op2 ld) = ?ea"
    unfolding assms(7) by (simp add: vm1_def effective_address_def split: AddrMode.splits)
  have "\<not> vm_halted vm1" using assms(2) by (simp add: vm1_def)
  from step_executes [OF this dec] execute_load [OF inv(2) assms(5,6), of h] ea
  have "vm_step vm1 h = Some (VM_OK, (set_pc vm1 ?p2)\<lparr>vm_cpu := (vm_cpu (set_pc vm1 ?p2))
      \<lparr>cpu_r := (cpu_r (vm_cpu vm))[unat (op_value (instr_op1 ld)) := ?v]\<rparr>\<rparr>, h)"
    by (simp add: vm1_def vm_mem.rd16_wr16_same)
  with s1 show ?thesis by (simp add: vm1_def vm_mem.rd16_wr16_same)
qed

definition store_instr :: Instruction where
  "store_instr = \<lparr>instr_opcode = OP_STORE, instr_op1 = \<lparr>op_mode = MODE_MEM_DIRECT, op_value = 0x20\<rparr>,
     instr_op2 = \<lparr>op_mode = MODE_REG, op_value = 3\<rparr>\<rparr>"

definition load_instr :: Instruction where
  "load_instr = \<lparr>instr_opcode = OP_LOAD, instr_op1 = \<lparr>op_mode = MODE_REG, op_value = 2\<rparr>,
     instr_op2 = \<lparr>op_mode = MODE_MEM_DIRECT, op_value = 0x20\<rparr>\<rparr>"

theorem store_then_load_witness:
  "\<exists>vm1 vm2. let vm = machine_with (encode_instruction store_instr @ encode_instruction load_instr);
      h = \<lparr>host_in = [], host_out = []\<rparr>
    in vm_step vm h = Some (VM_OK, vm1, h) \<and> vm_step vm1 h = Some (VM_OK, vm2, h) \<and>
       cpu_r (vm_cpu vm2) ! 2 = cpu_r (vm_cpu vm) ! 3"
proof -
  let ?vm = "machine_with (encode_instruction store_instr @ encode_instruction load_instr)"
  let ?h = "\<lparr>host_in = [], host_out = []\<rparr>"
  have wf: "instr_wf store_instr" "instr_wf load_instr" by code_simp+
  have has: "mem_has (vm_memory ?vm) (cpu_pc (vm_cpu ?vm)) (encode_instruction store_instr @ encode_instruction load_instr)"
    by code_simp
  have ops: "instr_opcode store_instr = OP_STORE" "instr_opcode load_instr = OP_LOAD"
    "instr_op2 load_instr = instr_op1 store_instr" by (simp_all add: store_instr_def load_instr_def)
  have len: "length (encode_instruction store_instr) = 5" "length (encode_instruction load_instr) = 5"
    "effective_address ?vm (instr_op1 store_instr) = 0x20" by code_simp+
  have "k = 0 \<or> k = 1 \<or> k = 2 \<or> k = 3 \<or> k = 4" if "k < 5" for k :: nat using that by arith
  then have sep: "\<forall>k < length (encode_instruction load_instr).
      effective_address ?vm (instr_op1 store_instr) \<noteq> cpu_pc (vm_cpu ?vm) + of_nat (length (encode_instruction store_instr)) + of_nat k \<and>
      effective_address ?vm (instr_op1 store_instr) + 1 \<noteq> cpu_pc (vm_cpu ?vm) + of_nat (length (encode_instruction store_instr)) + of_nat k"
    unfolding len by fastforce
  have "length (cpu_r (vm_cpu ?vm)) = 8" by code_simp
  moreover have "unat (op_value (instr_op1 load_instr)) = 2" "unat (op_value (instr_op2 store_instr)) = 3" by code_simp+
  ultimately show ?thesis
    using store_then_load [OF machine_with_inv machine_with_running wf(1) ops(1) wf(2) ops(2,3) has sep, of ?h]
    by (auto simp: Let_def)
qed

end
