(* ===== verification/Bvm_Loader.thy ===== *)
theory Bvm_Loader
  imports Bvm_Machine
begin

text \<open>
  The image loader (include/bytevm/loader.h, src/loader.c), the .bvm format as a
  specification (\<open>bvm_image\<close>, \<open>image_ok\<close>, \<open>loaded_vm\<close>), and the interface the command line
  and the debugger use. The buffer of \<open>size\<close> bytes is a list; a result \<^const>\<open>None\<close> is a
  read outside it.
\<close>

unbundle bit_operations_syntax

definition BVM_HEADER_SIZE :: nat where
  "BVM_HEADER_SIZE = 16"

text \<open>A read of the image buffer; \<^const>\<open>None\<close> is a read outside it.\<close>

definition byte_at :: "u8 list \<Rightarrow> nat \<Rightarrow> u8 option" where
  "byte_at bs i = (if i < length bs then Some (bs ! i) else None)"

definition read_u16_le :: "u8 list \<Rightarrow> nat \<Rightarrow> u16 option" where
  "read_u16_le p off = do {
     lo \<leftarrow> byte_at p off;
     hi \<leftarrow> byte_at p (off + 1);
     Some (ucast lo OR push_bit 8 (ucast hi))
   }"

text \<open>\<open>memcmp(data, "BVM1", 4) == 0\<close>.\<close>

definition memcmp_magic :: "u8 list \<Rightarrow> bool option" where
  "memcmp_magic bs = (if length bs < 4 then None else Some (take 4 bs = [0x42, 0x56, 0x4D, 0x31]))"

text \<open>The two copy loops: bytes \<open>off + i\<close> of the image to addresses \<open>addr + i\<close>, \<open>i < n\<close>.\<close>

function load_loop :: "Memory \<Rightarrow> u32 \<Rightarrow> u8 list \<Rightarrow> nat \<Rightarrow> nat \<Rightarrow> nat \<Rightarrow> Memory option" where
  "load_loop mem addr bs off n i =
     (if i < n then do {
        b \<leftarrow> byte_at bs (off + i);
        load_loop (mem_write8 mem (ucast (addr + of_nat i)) b) addr bs off n (i + 1)
      } else Some mem)"
  by pat_completeness auto
termination
  by (relation "measure (\<lambda>(mem, addr, bs, off, n, i). n - i)") auto

declare load_loop.simps [simp del]

definition vm_load :: "VM \<Rightarrow> u8 list \<Rightarrow> (VmResult \<times> VM) option" where
  "vm_load vm data =
     (if length data < BVM_HEADER_SIZE then Some (VM_ERR_BAD_BYTECODE_HEADER, vm)
      else do {
        magic \<leftarrow> memcmp_magic data;
        if \<not> magic then Some (VM_ERR_BAD_BYTECODE_HEADER, vm)
        else do {
          version \<leftarrow> byte_at data 4;
          reserved \<leftarrow> byte_at data 5;
          if version \<noteq> 1 \<or> reserved \<noteq> 0 then Some (VM_ERR_BAD_BYTECODE_HEADER, vm)
          else do {
            w6 \<leftarrow> read_u16_le data 6;
            w8 \<leftarrow> read_u16_le data 8;
            w10 \<leftarrow> read_u16_le data 10;
            w12 \<leftarrow> read_u16_le data 12;
            w14 \<leftarrow> read_u16_le data 14;
            let entry_point = (ucast w6 :: u32);
            let code_size = (ucast w8 :: u32);
            let code_addr = (ucast w10 :: u32);
            let data_size = (ucast w12 :: u32);
            let data_addr = (ucast w14 :: u32);
            if length data < BVM_HEADER_SIZE + unat code_size + unat data_size
            then Some (VM_ERR_BAD_BYTECODE_HEADER, vm)
            else do {
              let code_end = code_addr + code_size;
              let data_end = data_addr + data_size;
              if code_end > 0x10000 \<or> data_end > 0x10000 then Some (VM_ERR_BAD_BYTECODE_HEADER, vm)
              else if \<not> (entry_point \<ge> code_addr \<and> entry_point < code_end)
              then Some (VM_ERR_BAD_BYTECODE_HEADER, vm)
              else if code_addr < data_end \<and> data_addr < code_end
              then Some (VM_ERR_BAD_BYTECODE_HEADER, vm)
              else do {
                let vm = vm\<lparr>vm_cpu := cpu_init (vm_cpu vm), vm_memory := mem_init (vm_memory vm),
                            vm_halted := False, vm_last_error := VM_OK, vm_error_pc := 0\<rparr>;
                mem \<leftarrow> load_loop (vm_memory vm) code_addr data BVM_HEADER_SIZE (unat code_size) 0;
                mem \<leftarrow> load_loop mem data_addr data (BVM_HEADER_SIZE + unat code_size) (unat data_size) 0;
                let vm = vm\<lparr>vm_memory := mem, vm_cpu := (vm_cpu vm)\<lparr>cpu_pc := ucast entry_point\<rparr>\<rparr>;
                let limit = (if code_end > data_end then code_end else data_end);
                Some (VM_OK, vm\<lparr>vm_stack_limit := ucast (if limit > 0xFFFF then 0xFFFF else limit)\<rparr>)
              }
            }
          }
        }
      })"

subsection \<open>The image format as a specification\<close>

definition le16 :: "u16 \<Rightarrow> u8 list" where
  "le16 w = [ucast (w AND 0xFF), ucast (drop_bit 8 w)]"

definition bvm_image :: "u16 \<Rightarrow> u16 \<Rightarrow> u8 list \<Rightarrow> u16 \<Rightarrow> u8 list \<Rightarrow> u8 list" where
  "bvm_image entry code_addr code data_addr dat =
     [0x42, 0x56, 0x4D, 0x31, 1, 0] @ le16 entry @ le16 (of_nat (length code)) @ le16 code_addr
     @ le16 (of_nat (length dat)) @ le16 data_addr @ code @ dat"

definition image_ok :: "u16 \<Rightarrow> u16 \<Rightarrow> u8 list \<Rightarrow> u16 \<Rightarrow> u8 list \<Rightarrow> bool" where
  "image_ok entry code_addr code data_addr dat \<longleftrightarrow>
     length code < 0x10000 \<and> length dat < 0x10000 \<and>
     unat code_addr + length code \<le> 0x10000 \<and> unat data_addr + length dat \<le> 0x10000 \<and>
     unat code_addr \<le> unat entry \<and> unat entry < unat code_addr + length code \<and>
     (unat data_addr + length dat \<le> unat code_addr \<or> unat code_addr + length code \<le> unat data_addr)"

definition region_byte :: "u16 \<Rightarrow> u8 list \<Rightarrow> u16 \<Rightarrow> u8 option" where
  "region_byte addr bs a =
     (if unat addr \<le> unat a \<and> unat a < unat addr + length bs then Some (bs ! (unat a - unat addr)) else None)"

definition loaded_memory :: "u16 \<Rightarrow> u8 list \<Rightarrow> u16 \<Rightarrow> u8 list \<Rightarrow> Memory" where
  "loaded_memory code_addr code data_addr dat = \<lparr>mem_data = (\<lambda>a.
     case region_byte data_addr dat a of Some b \<Rightarrow> b
     | None \<Rightarrow> (case region_byte code_addr code a of Some b \<Rightarrow> b | None \<Rightarrow> 0))\<rparr>"

definition loaded_vm :: "u16 \<Rightarrow> u16 \<Rightarrow> u8 list \<Rightarrow> u16 \<Rightarrow> u8 list \<Rightarrow> VM" where
  "loaded_vm entry code_addr code data_addr dat =
     \<lparr>vm_cpu = \<lparr>cpu_r = replicate 8 0, cpu_pc = entry, cpu_sp = 0xFFFE, cpu_flags = 0\<rparr>,
      vm_memory = loaded_memory code_addr code data_addr dat,
      vm_halted = False, vm_last_error = VM_OK, vm_error_pc = 0,
      vm_stack_limit = of_nat (min 0xFFFF (max (unat code_addr + length code) (unat data_addr + length dat)))\<rparr>"

lemma load_loop_spec:
  assumes "off + n \<le> length bs" "unat addr + n \<le> 0x10000" "i \<le> n"
  shows "\<exists>mem'. load_loop mem (ucast (addr :: u16)) bs off n i = Some mem' \<and>
    (\<forall>a. mem_read8 mem' a = (if unat addr + i \<le> unat a \<and> unat a < unat addr + n
                             then bs ! (off + (unat a - unat addr)) else mem_read8 mem a))"
  using assms(3)
proof (induction "n - i" arbitrary: mem i)
  case 0
  then show ?case by (auto simp: load_loop.simps [of _ _ _ _ _ i])
next
  case (Suc k)
  then have i: "i < n" by simp
  define w :: u16 where "w = ucast ((ucast addr :: u32) + of_nat i)"
  have w: "unat w = unat addr + i"
  proof -
    have "unat ((ucast addr :: u32) + of_nat i) = unat addr + i"
      using assms(2) i by (simp add: unat_word_ariths unsigned_of_nat take_bit_nat_eq_self unat_ucast_u32)
    then show ?thesis using assms(2) i by (simp add: w_def unsigned_ucast_eq take_bit_nat_eq_self)
  qed
  let ?mem = "mem_write8 mem w (bs ! (off + i))"
  have "k = n - (i + 1)" "i + 1 \<le> n" using Suc.hyps(2) i by auto
  from Suc.hyps(1) [OF this, of ?mem] obtain mem' where
    m: "load_loop ?mem (ucast addr) bs off n (i + 1) = Some mem'"
    "\<And>a. mem_read8 mem' a = (if unat addr + (i + 1) \<le> unat a \<and> unat a < unat addr + n
        then bs ! (off + (unat a - unat addr)) else mem_read8 ?mem a)" by blast
  have "load_loop mem (ucast addr) bs off n i = Some mem'"
    using i assms(1) m(1) by (simp add: load_loop.simps [of mem] byte_at_def w_def)
  moreover have "mem_read8 mem' a = (if unat addr + i \<le> unat a \<and> unat a < unat addr + n
      then bs ! (off + (unat a - unat addr)) else mem_read8 mem a)" for a
  proof (cases "a = w")
    case True
    then show ?thesis using w i by (simp add: m(2) vm_mem.rd8_wr8)
  next
    case False
    then have "unat a \<noteq> unat addr + i" using w by (metis word_unat_eq_iff)
    then show ?thesis using False by (auto simp: m(2) vm_mem.rd8_wr8)
  qed
  ultimately show ?case by blast
qed

definition header_word :: "u8 list \<Rightarrow> nat \<Rightarrow> u16" where
  "header_word bs k = ucast (bs ! k) OR push_bit 8 (ucast (bs ! (k + 1)))"

definition image_code :: "u8 list \<Rightarrow> u8 list" where
  "image_code bs = take (unat (header_word bs 8)) (drop 16 bs)"

definition image_data :: "u8 list \<Rightarrow> u8 list" where
  "image_data bs = take (unat (header_word bs 12)) (drop (16 + unat (header_word bs 8)) bs)"

definition header_ok :: "u8 list \<Rightarrow> bool" where
  "header_ok bs \<longleftrightarrow> 16 \<le> length bs \<and> take 6 bs = [0x42, 0x56, 0x4D, 0x31, 1, 0] \<and>
     16 + unat (header_word bs 8) + unat (header_word bs 12) \<le> length bs \<and>
     image_ok (header_word bs 6) (header_word bs 10) (image_code bs) (header_word bs 14) (image_data bs)"

lemma take6_split: 
  "6 \<le> length bs \<Longrightarrow> take 6 bs = [a, b, c, d, e, f] \<longleftrightarrow> take 4 bs = [a, b, c, d] \<and> bs ! 4 = e \<and> bs ! 5 = f"
proof -
  assume len: "6 \<le> length bs"
  have "take 6 bs = take 5 bs @ [bs ! 5]" "take 5 bs = take 4 bs @ [bs ! 4]"
    using len take_Suc_conv_app_nth [of 5 bs] take_Suc_conv_app_nth [of 4 bs] by simp_all
  then have "take 6 bs = take 4 bs @ [bs ! 4, bs ! 5]" by simp
  moreover have "length (take 4 bs) = length [a, b, c, d]" using len by simp
  ultimately show ?thesis using append_eq_append_conv [of "take 4 bs" "[a, b, c, d]"] by auto
qed

lemma read_u16_le_header: "k + 2 \<le> length bs \<Longrightarrow> read_u16_le bs k = Some (header_word bs k)"
  by (simp add: read_u16_le_def byte_at_def header_word_def)

lemma unat_add_u32: "unat ((ucast (a :: u16) :: u32) + ucast (b :: u16)) = unat a + unat b"
  using unat_lt_65536 [of a] unat_lt_65536 [of b]
  by (simp add: unat_word_ariths unat_ucast_u32)

lemma image_code_length:
  "16 + unat (header_word bs 8) + unat (header_word bs 12) \<le> length bs \<Longrightarrow>
     length (image_code bs) = unat (header_word bs 8) \<and> length (image_data bs) = unat (header_word bs 12)"
  by (simp add: image_code_def image_data_def)

lemma load_two_regions:
  assumes ok: "image_ok entry ca code da dat"
    and bs: "take (length code) (drop 16 bs) = code" "take (length dat) (drop (16 + length code) bs) = dat"
    and len: "16 + length code + length dat \<le> length bs"
  shows "\<exists>m1. load_loop (mem_init m) (ucast ca) bs 16 (length code) 0 = Some m1 \<and>
    load_loop m1 (ucast da) bs (16 + length code) (length dat) 0 = Some (loaded_memory ca code da dat)"
proof -
  from load_loop_spec [of 16 "length code" bs ca 0 "mem_init m"] ok len obtain m1 where
    m1: "load_loop (mem_init m) (ucast ca) bs 16 (length code) 0 = Some m1"
    "\<And>a. mem_read8 m1 a = (if unat ca \<le> unat a \<and> unat a < unat ca + length code
        then bs ! (16 + (unat a - unat ca)) else 0)"
    by (auto simp: image_ok_def)
  from load_loop_spec [of "16 + length code" "length dat" bs da 0 m1] ok len obtain m2 where
    m2: "load_loop m1 (ucast da) bs (16 + length code) (length dat) 0 = Some m2"
    "\<And>a. mem_read8 m2 a = (if unat da \<le> unat a \<and> unat a < unat da + length dat
        then bs ! (16 + length code + (unat a - unat da)) else mem_read8 m1 a)"
    by (auto simp: image_ok_def)
  have c: "k < length code \<Longrightarrow> bs ! (16 + k) = code ! k" for k
    using arg_cong [OF bs(1), of "\<lambda>l. l ! k"] len by simp
  have d: "k < length dat \<Longrightarrow> bs ! (16 + length code + k) = dat ! k" for k
    using arg_cong [OF bs(2), of "\<lambda>l. l ! k"] len by simp
  have "m2 = loaded_memory ca code da dat"
  proof (rule mem_eqI)
    fix a
    show "mem_read8 m2 a = mem_read8 (loaded_memory ca code da dat) a"
      using c [of "unat a - unat ca"] d [of "unat a - unat da"]
      by (auto simp: m1(2) m2(2) loaded_memory_def region_byte_def mem_read8_def [of "\<lparr>mem_data = f\<rparr>" for f])
  qed
  with m1(1) m2(1) show ?thesis by blast
qed

lemma ucast_u32_id [simp]: "ucast (ucast (w :: u16) :: u32) = w"
  by (rule bit_word_eqI) (simp add: bit_simps)

lemma clamp_word: "(ucast (if (0xFFFF :: u32) < l then 0xFFFF else l) :: u16) = of_nat (min 0xFFFF (unat l))"
proof (cases "0xFFFF < l")
  case True
  then show ?thesis by (simp add: word_less_nat_alt min_def)
next
  case False
  then have "unat l \<le> 0xFFFF" by (simp add: word_less_nat_alt)
  then show ?thesis using False by (simp add: min_def word_unat_eq_iff unsigned_of_nat unsigned_ucast_eq)
qed

lemma unat_if_max: "unat (if b < a then a else (b :: u32)) = max (unat a) (unat b)"
  by (auto simp: word_less_nat_alt max_def)

lemma reset_vm:
  "vm\<lparr>vm_halted := False, vm_last_error := VM_OK, vm_error_pc := 0, vm_memory := mem,
      vm_cpu := (cpu_init (vm_cpu vm))\<lparr>cpu_pc := p\<rparr>, vm_stack_limit := l\<rparr> =
   \<lparr>vm_cpu = \<lparr>cpu_r = replicate 8 0, cpu_pc = p, cpu_sp = 0xFFFE, cpu_flags = 0\<rparr>, vm_memory = mem,
      vm_halted = False, vm_last_error = VM_OK, vm_error_pc = 0, vm_stack_limit = l\<rparr>" for vm :: VM
  by (rule VM.equality; simp; rule CPU.equality) (simp_all add: cpu_init_def CPU_INITIAL_SP_def)

lemma vm_load_header:
  "vm_load vm bs = Some (if header_ok bs
     then (VM_OK, loaded_vm (header_word bs 6) (header_word bs 10) (image_code bs) (header_word bs 14) (image_data bs))
     else (VM_ERR_BAD_BYTECODE_HEADER, vm))"
proof (cases "16 \<le> length bs \<and> take 6 bs = [0x42, 0x56, 0x4D, 0x31, 1, 0] \<and>
     16 + unat (header_word bs 8) + unat (header_word bs 12) \<le> length bs")
  case False
  then show ?thesis
    by (auto simp: vm_load_def header_ok_def BVM_HEADER_SIZE_def memcmp_magic_def byte_at_def
        take6_split read_u16_le_header unat_ucast_u32 Let_def)
next
  case True
  then have len: "16 \<le> length bs" "16 + unat (header_word bs 8) + unat (header_word bs 12) \<le> length bs"
    and mg: "take 4 bs = [0x42, 0x56, 0x4D, 0x31]" "bs ! 4 = 1" "bs ! 5 = 0"
    by (auto simp: take6_split)
  note cl = image_code_length [OF len(2)]
  let ?ok = "image_ok (header_word bs 6) (header_word bs 10) (image_code bs) (header_word bs 14) (image_data bs)"
  note ar = unat_add_u32 word_less_nat_alt word_le_nat_alt unat_ucast_u32
  show ?thesis
  proof (cases ?ok)
    case False
    then show ?thesis
      using True len mg cl unat_lt_65536 [of "header_word bs 8"] unat_lt_65536 [of "header_word bs 12"]
      by (auto simp: vm_load_def header_ok_def BVM_HEADER_SIZE_def memcmp_magic_def byte_at_def
        read_u16_le_header image_ok_def ar Let_def)
  next
    case ok: True
    from load_two_regions [OF ok, of bs "vm_memory vm"] cl len obtain m1 where
      m1: "load_loop (mem_init (vm_memory vm)) (ucast (header_word bs 10)) bs 16 (unat (header_word bs 8)) 0 = Some m1"
      "load_loop m1 (ucast (header_word bs 14)) bs (16 + unat (header_word bs 8)) (unat (header_word bs 12)) 0 =
        Some (loaded_memory (header_word bs 10) (image_code bs) (header_word bs 14) (image_data bs))"
      by (auto simp: image_code_def image_data_def)
    have "header_ok bs" using True ok by (simp add: header_ok_def)
    moreover have "\<not> (0x10000 < (ucast (header_word bs 10) :: u32) + ucast (header_word bs 8) \<or>
        0x10000 < (ucast (header_word bs 14) :: u32) + ucast (header_word bs 12))"
      "(ucast (header_word bs 10) :: u32) \<le> ucast (header_word bs 6)"
      "(ucast (header_word bs 6) :: u32) < ucast (header_word bs 10) + ucast (header_word bs 8)"
      "\<not> ((ucast (header_word bs 10) :: u32) < ucast (header_word bs 14) + ucast (header_word bs 12) \<and>
        (ucast (header_word bs 14) :: u32) < ucast (header_word bs 10) + ucast (header_word bs 8))"
      using ok cl by (auto simp: image_ok_def ar)
    then have "vm_load vm bs = Some (VM_OK,
      loaded_vm (header_word bs 6) (header_word bs 10) (image_code bs) (header_word bs 14) (image_data bs))"
      using len mg cl m1
      by (simp add: vm_load_def BVM_HEADER_SIZE_def memcmp_magic_def byte_at_def read_u16_le_header
        unat_ucast_u32 Let_def clamp_word unat_if_max unat_add_u32 reset_vm loaded_vm_def del: not_less)
    ultimately show ?thesis by simp
  qed
qed

lemma le16_word: "header_word (xs @ le16 w @ ys) (length xs) = w"
  by (simp add: header_word_def le16_def nth_append le16_join)

lemma le16_length [simp]: "length (le16 w) = 2"
  by (simp add: le16_def)

lemma word_of_unat_length: "of_nat (unat (w :: u16)) = w"
  by simp

lemma le16_header_word: "k + 2 \<le> length bs \<Longrightarrow> le16 (header_word bs k) = [bs ! k, bs ! (k + 1)]"
  unfolding le16_def header_word_def le16_low le16_high ..

lemma image_fields:
  fixes entry ca da :: u16 and code dat rest :: "u8 list"
  assumes "length code < 0x10000" "length dat < 0x10000"
  defines "bs \<equiv> bvm_image entry ca code da dat @ rest"
  shows "header_word bs 6 = entry" "header_word bs 8 = of_nat (length code)" "header_word bs 10 = ca"
    "header_word bs 12 = of_nat (length dat)" "header_word bs 14 = da"
    "take 6 bs = [0x42, 0x56, 0x4D, 0x31, 1, 0]" "image_code bs = code" "image_data bs = dat"
    "16 + length code + length dat \<le> length bs"
proof -
  let ?m = "[0x42, 0x56, 0x4D, 0x31, 1, 0] :: u8 list"
  have six: "Suc (Suc (Suc (Suc (Suc (Suc 0))))) = 6" by simp
  show w: "header_word bs 6 = entry" "header_word bs 8 = of_nat (length code)" "header_word bs 10 = ca"
    "header_word bs 12 = of_nat (length dat)" "header_word bs 14 = da"
    using le16_word [of ?m entry] le16_word [of "?m @ le16 entry" "of_nat (length code)"]
      le16_word [of "?m @ le16 entry @ le16 (of_nat (length code))" ca]
      le16_word [of "?m @ le16 entry @ le16 (of_nat (length code)) @ le16 ca" "of_nat (length dat)"]
      le16_word [of "?m @ le16 entry @ le16 (of_nat (length code)) @ le16 ca @ le16 (of_nat (length dat))" da]
    by (simp_all add: bs_def bvm_image_def six)
  show "take 6 bs = ?m" "16 + length code + length dat \<le> length bs" by (simp_all add: bs_def bvm_image_def)
  have n: "unat (of_nat (length code) :: u16) = length code" "unat (of_nat (length dat) :: u16) = length dat"
    using assms(1,2) by (simp_all add: unat_of_nat_u16)
  have d: "drop 16 bs = code @ dat @ rest" by (simp add: bs_def bvm_image_def le16_def)
  then have d2: "drop (16 + length code) bs = dat @ rest"
    by (metis add.commute append_eq_conv_conj drop_drop)
  show "image_code bs = code" "image_data bs = dat"
    using d d2 by (simp_all add: image_code_def image_data_def w n)
qed

lemma header_ok_image:
  "image_ok entry ca code da dat \<Longrightarrow> header_ok (bvm_image entry ca code da dat @ rest)"
  using image_fields [of code dat entry ca da rest]
  by (simp add: header_ok_def image_ok_def unat_of_nat_u16)

lemma header_split:
  assumes "16 \<le> length bs"
  shows "bs = take 6 bs @ le16 (header_word bs 6) @ le16 (header_word bs 8) @ le16 (header_word bs 10)
    @ le16 (header_word bs 12) @ le16 (header_word bs 14) @ drop 16 bs"
proof -
  have two: "drop k bs = le16 (header_word bs k) @ drop (k + 2) bs" if "k + 2 \<le> length bs" for k
  proof -
    have "drop k bs = bs ! k # bs ! Suc k # drop (Suc (Suc k)) bs"
      using that Cons_nth_drop_Suc [of k bs] Cons_nth_drop_Suc [of "Suc k" bs] by simp
    then show ?thesis using le16_header_word [OF that] by simp
  qed
  have "drop 6 bs = le16 (header_word bs 6) @ le16 (header_word bs 8) @ le16 (header_word bs 10)
      @ le16 (header_word bs 12) @ le16 (header_word bs 14) @ drop 16 bs"
    using two [of 6] two [of 8] two [of 10] two [of 12] two [of 14] assms by simp
  then show ?thesis by (metis append_take_drop_id)
qed

lemma header_ok_decompose:
  assumes "header_ok bs"
  shows "bs = bvm_image (header_word bs 6) (header_word bs 10) (image_code bs) (header_word bs 14) (image_data bs)
    @ drop (16 + unat (header_word bs 8) + unat (header_word bs 12)) bs"
proof -
  let ?c = "unat (header_word bs 8)" and ?d = "unat (header_word bs 12)"
  have h: "16 \<le> length bs" "take 6 bs = [0x42, 0x56, 0x4D, 0x31, 1, 0]" "16 + ?c + ?d \<le> length bs"
    using assms by (auto simp: header_ok_def)
  have l: "of_nat (length (image_code bs)) = header_word bs 8" "of_nat (length (image_data bs)) = header_word bs 12"
    using image_code_length [OF h(3)] by simp_all
  have "drop 16 bs = image_code bs @ drop (16 + ?c) bs"
    using append_take_drop_id [of ?c "drop 16 bs"] by (simp add: image_code_def add.commute)
  moreover have "drop (16 + ?c) bs = image_data bs @ drop (16 + ?c + ?d) bs"
    using append_take_drop_id [of ?d "drop (16 + ?c) bs"] by (simp add: image_data_def add_ac)
  ultimately have "take 6 bs @ le16 (header_word bs 6) @ le16 (header_word bs 8) @ le16 (header_word bs 10)
      @ le16 (header_word bs 12) @ le16 (header_word bs 14) @ drop 16 bs =
      bvm_image (header_word bs 6) (header_word bs 10) (image_code bs) (header_word bs 14) (image_data bs)
        @ drop (16 + ?c + ?d) bs"
    unfolding bvm_image_def l h(2) by simp
  with header_split [OF h(1)] show ?thesis by (rule trans)
qed

lemma vm_load_image:
  "image_ok entry ca code da dat \<Longrightarrow>
     vm_load vm (bvm_image entry ca code da dat @ rest) = Some (VM_OK, loaded_vm entry ca code da dat)"
  using header_ok_image [of entry ca code da dat rest] image_fields [of code dat entry ca da rest]
  by (simp add: vm_load_header image_ok_def)

lemma header_ok_iff:
  "header_ok bs \<longleftrightarrow>
     (\<exists>entry ca code da dat rest. bs = bvm_image entry ca code da dat @ rest \<and> image_ok entry ca code da dat)"
proof
  assume ok: "header_ok bs"
  then have "image_ok (header_word bs 6) (header_word bs 10) (image_code bs) (header_word bs 14) (image_data bs)"
    by (simp add: header_ok_def)
  with header_ok_decompose [OF ok]
  show "\<exists>entry ca code da dat rest. bs = bvm_image entry ca code da dat @ rest \<and> image_ok entry ca code da dat"
    by blast
qed (use header_ok_image in blast)

text \<open>
  The overlap test of the loader: the two half-open ranges of addresses are disjoint, and an empty
  data region does not lie strictly inside the code (such a region overlaps nothing, but the
  test of the code counts it as an overlap).
\<close>

definition regions_ok :: "u16 \<Rightarrow> u8 list \<Rightarrow> u16 \<Rightarrow> u8 list \<Rightarrow> bool" where
  "regions_ok ca code da dat \<longleftrightarrow>
     {unat ca ..< unat ca + length code} \<inter> {unat da ..< unat da + length dat} = {} \<and>
     \<not> (dat = [] \<and> unat ca < unat da \<and> unat da < unat ca + length code)"

lemma ranges_disjoint: "{a ..< b} \<inter> {c ..< d} = {} \<longleftrightarrow> b \<le> a \<or> d \<le> c \<or> b \<le> c \<or> d \<le> (a :: nat)"
proof -
  have "{a ..< b} \<inter> {c ..< d} = {max a c ..< min b d}" by auto
  then show ?thesis by auto
qed

lemma image_ok_regions:
  "image_ok entry ca code da dat \<longleftrightarrow> length code < 0x10000 \<and> length dat < 0x10000 \<and>
     unat ca + length code \<le> 0x10000 \<and> unat da + length dat \<le> 0x10000 \<and>
     unat ca \<le> unat entry \<and> unat entry < unat ca + length code \<and> regions_ok ca code da dat"
  by (cases "dat = []") (auto simp: image_ok_def regions_ok_def ranges_disjoint)

lemma vm_load_iff:
  "(vm_load vm bs = Some (VM_OK, vm') \<longleftrightarrow>
      (\<exists>entry ca code da dat rest. bs = bvm_image entry ca code da dat @ rest \<and>
         image_ok entry ca code da dat \<and> vm' = loaded_vm entry ca code da dat)) \<and>
   (vm_load vm bs = Some (VM_ERR_BAD_BYTECODE_HEADER, vm) \<longleftrightarrow>
      (\<nexists>entry ca code da dat rest. bs = bvm_image entry ca code da dat @ rest \<and> image_ok entry ca code da dat))"
proof (cases "header_ok bs")
  case True
  then obtain entry ca code da dat rest where
    bs: "bs = bvm_image entry ca code da dat @ rest" "image_ok entry ca code da dat"
    unfolding header_ok_iff by blast
  then have load: "vm_load vm bs = Some (VM_OK, loaded_vm entry ca code da dat)" by (simp add: vm_load_image)
  show ?thesis
  proof (intro conjI iffI)
    assume "vm_load vm bs = Some (VM_OK, vm')"
    with load have "vm' = loaded_vm entry ca code da dat" by simp
    with bs show "\<exists>entry ca code da dat rest. bs = bvm_image entry ca code da dat @ rest \<and>
        image_ok entry ca code da dat \<and> vm' = loaded_vm entry ca code da dat" by blast
  qed (use load bs vm_load_image in \<open>force+\<close>)
next
  case False
  then have no: "\<nexists>entry ca code da dat rest. bs = bvm_image entry ca code da dat @ rest \<and> image_ok entry ca code da dat"
    unfolding header_ok_iff .
  have "vm_load vm bs = Some (VM_ERR_BAD_BYTECODE_HEADER, vm)" using False by (simp add: vm_load_header)
  with no show ?thesis by (intro conjI iffI) (simp, blast, assumption, assumption)
qed

text \<open>
  C4: the loader accepts exactly the well-formed images: vm_load returns VM_OK precisely when the
  bytes are a header with magic, version and reserved byte, followed by the code and data it
  announces (and anything after them), both regions inside the 64 KB, the entry point in the
  code, the address ranges of code and data disjoint, and an empty data region not strictly
  inside the code; the machine is then the reset machine with the two regions copied to their
  addresses, all other memory zero, PC at the entry point and the stack limit at the highest
  region end, clamped to 0xFFFF. Every other byte string is rejected with
  VM_ERR_BAD_BYTECODE_HEADER and the machine is untouched. The condition on an empty data
  region is stricter than the overlap of ranges that the format asks for.
\<close>

theorem vm_load_exact:
  "(vm_load vm bs = Some (VM_OK, vm') \<longleftrightarrow>
      (\<exists>entry ca code da dat rest. bs = bvm_image entry ca code da dat @ rest \<and>
         image_ok entry ca code da dat \<and> vm' = loaded_vm entry ca code da dat)) \<and>
   (vm_load vm bs = Some (VM_ERR_BAD_BYTECODE_HEADER, vm) \<longleftrightarrow>
      (\<nexists>entry ca code da dat rest. bs = bvm_image entry ca code da dat @ rest \<and> image_ok entry ca code da dat)) \<and>
   (image_ok entry ca code da dat \<longleftrightarrow> length code < 0x10000 \<and> length dat < 0x10000 \<and>
      unat ca + length code \<le> 0x10000 \<and> unat da + length dat \<le> 0x10000 \<and>
      unat ca \<le> unat entry \<and> unat entry < unat ca + length code \<and> regions_ok ca code da dat)"
  using vm_load_iff [of vm bs vm'] image_ok_regions [of entry ca code da dat] by blast

lemma loaded_vm_inv: "vm_inv (loaded_vm entry ca code da dat)"
  by (simp add: vm_inv_def loaded_vm_def flags_reserved_zero_def CPU_INITIAL_SP_def)

subsection \<open>The loader interface\<close>

locale image_loader =
  fixes load :: "'vm \<Rightarrow> u8 list \<Rightarrow> (VmResult \<times> 'vm) option"
    and good :: "u8 list \<Rightarrow> bool"
    and start :: "u8 list \<Rightarrow> 'vm"
    and inv :: "'vm \<Rightarrow> bool"
  assumes load_good: "good bs \<Longrightarrow> load vm bs = Some (VM_OK, start bs)"
    and load_bad: "\<not> good bs \<Longrightarrow> load vm bs = Some (VM_ERR_BAD_BYTECODE_HEADER, vm)"
    and start_inv: "good bs \<Longrightarrow> inv (start bs)"
begin

lemma load_ok_iff: "load vm bs = Some (VM_OK, vm') \<longleftrightarrow> good bs \<and> vm' = start bs"
  by (cases "good bs") (auto simp: load_good load_bad)

lemma load_total: "\<exists>r vm'. load vm bs = Some (r, vm')"
  by (cases "good bs") (auto simp: load_good load_bad)

lemma load_inv: "load vm bs = Some (r, vm') \<Longrightarrow> inv vm \<Longrightarrow> inv vm'"
  by (cases "good bs") (auto simp: load_good load_bad start_inv)

text \<open>Loading again restores the loaded machine, whatever happened to it.\<close>

lemma reload: "load vm bs = Some (VM_OK, vm1) \<Longrightarrow> load vm2 bs = Some (VM_OK, vm1)"
  by (simp add: load_ok_iff)

end

definition image_start :: "u8 list \<Rightarrow> VM" where
  "image_start bs =
     loaded_vm (header_word bs 6) (header_word bs 10) (image_code bs) (header_word bs 14) (image_data bs)"

interpretation loader: image_loader vm_load header_ok image_start vm_inv
  by unfold_locales (simp_all add: vm_load_header image_start_def loaded_vm_inv)

definition image_region :: "u8 list \<Rightarrow> u16 \<Rightarrow> bool" where
  "image_region bs a \<longleftrightarrow>
     region_byte (header_word bs 10) (image_code bs) a \<noteq> None
     \<or> region_byte (header_word bs 14) (image_data bs) a \<noteq> None"

lemma region_below_limit:
  assumes "header_ok bs" "image_region bs a"
  shows "unat a < unat (vm_stack_limit (image_start bs)) + 2"
proof -
  have "unat a < max (unat (header_word bs 10) + length (image_code bs)) (unat (header_word bs 14) + length (image_data bs))"
    using assms(2) by (auto simp: image_region_def region_byte_def split: if_splits)
  moreover have "m < unat (of_nat (min 0xFFFF n) :: u16) + 2" if "m < n" "m < 65536" for m n
    using that by (simp add: unat_of_nat_u16 min_def)
  ultimately show ?thesis
    using unat_lt_65536 [of a] by (simp add: image_start_def loaded_vm_def)
qed

text \<open>
  C15: in any run of a loaded program, an instruction other than STORE never changes a byte of
  the loaded code or data, also when the program reaches the top of memory, where the stack
  limit is clamped.
\<close>

theorem loaded_program_protected:
  assumes "vm_load vm bs = Some (VM_OK, vm0)" "vm_reaches vm0 h0 vm1 h1"
    and "vm_step vm1 h1 = Some (r, vm2, h2)"
    and "\<nexists>i pc'. instruction_decode (vm_memory vm1) (cpu_pc (vm_cpu vm1)) = Inr (i, pc') \<and> instr_opcode i = OP_STORE"
    and "image_region bs a"
  shows "mem_read8 (vm_memory vm2) a = mem_read8 (vm_memory vm1) a"
proof (rule ccontr)
  assume ne: "mem_read8 (vm_memory vm2) a \<noteq> mem_read8 (vm_memory vm1) a"
  have ok: "header_ok bs" "vm0 = image_start bs" using assms(1) by (auto simp: loader.load_ok_iff)
  have inv: "vm_inv vm1" "vm_stack_limit vm1 = vm_stack_limit (image_start bs)"
    using vm_reaches_inv [OF assms(2)] loader.start_inv ok by auto
  from step_memory_change [OF inv(1) assms(3) ne] assms(4)
  have "unat (vm_stack_limit (image_start bs)) + 2 \<le> unat a" using inv(2) by auto
  with region_below_limit [OF ok(1) assms(5)] show False by simp
qed

text \<open>A two-instruction program at 0x0010, CALL 0x0010 and HALT, with two data bytes above it.\<close>

definition sample_image :: "u8 list" where
  "sample_image = bvm_image 0x10 0x10 (encode_instruction (jump_to OP_CALL 0x10) @ [0xFF, 0]) 0x20 [7, 9]"

lemma sample_image_load:
  "vm_load vm sample_image = Some (VM_OK, loaded_vm 0x10 0x10 (encode_instruction (jump_to OP_CALL 0x10) @ [0xFF, 0]) 0x20 [7, 9])"
proof -
  have "image_ok 0x10 0x10 (encode_instruction (jump_to OP_CALL 0x10) @ [0xFF, 0]) 0x20 [7, 9]"
    by (simp add: image_ok_def)
  from vm_load_image [OF this, of vm "[]"] show ?thesis by (simp add: sample_image_def)
qed

theorem loaded_program_protected_witness:
  "\<exists>vm0 vm2 r. vm_load (machine_with []) sample_image = Some (VM_OK, vm0) \<and>
     vm_step vm0 \<lparr>host_in = [], host_out = []\<rparr> = Some (r, vm2, \<lparr>host_in = [], host_out = []\<rparr>) \<and>
     mem_read8 (vm_memory vm2) 0x21 = mem_read8 (vm_memory vm0) 0x21"
proof -
  let ?vm = "loaded_vm 0x10 0x10 (encode_instruction (jump_to OP_CALL 0x10) @ [0xFF, 0]) 0x20 [7, 9]"
  let ?h = "\<lparr>host_in = [], host_out = []\<rparr>"
  have "mem_has (loaded_memory 0x10 (encode_instruction (jump_to OP_CALL 0x10) @ [0xFF, 0]) 0x20 [7, 9]) 0x10
      (encode_instruction (jump_to OP_CALL 0x10))" by code_simp
  then have has: "mem_has (vm_memory ?vm) (cpu_pc (vm_cpu ?vm)) (encode_instruction (jump_to OP_CALL 0x10))"
    by (simp add: loaded_vm_def)
  then have dec: "instruction_decode (vm_memory ?vm) (cpu_pc (vm_cpu ?vm)) =
      Inr (jump_to OP_CALL 0x10, cpu_pc (vm_cpu ?vm) + 4)"
    using mem_has_decode [OF call_instr_wf, where vm = ?vm and bs = "[]"] by simp
  have room: "stack_room ?vm" by (simp add: stack_room_def loaded_vm_def)
  have run: "\<not> vm_halted ?vm" by (simp add: loaded_vm_def)
  from step_call [OF loaded_vm_inv run room has, of ?h] obtain vm2 where
    st: "vm_step ?vm ?h = Some (VM_OK, vm2, ?h)" by blast
  have "image_region sample_image 0x21" by code_simp
  with loaded_program_protected [OF sample_image_load reaches_refl st, where a = "0x21"] dec
  have "mem_read8 (vm_memory vm2) 0x21 = mem_read8 (vm_memory ?vm) 0x21" by (auto simp: jump_to_def)
  with st sample_image_load [of "machine_with []"] show ?thesis by blast
qed

end
