(* ===== verification/Bvm_Disassembler.thy ===== *)
theory Bvm_Disassembler
  imports Bvm_Loader Bvm_Libc
begin

text \<open>
  The disassembler (include/bytevm/disassembler.h, src/disassembler.c). The growable output
  buffer is the text printed so far, or NULL; allocation succeeds. A result \<^const>\<open>None\<close> is
  undefined behaviour: a read outside the image, a piece of output longer than the 256-byte
  buffer it is formatted in, or a NULL mnemonic; the lemmas below show that none of them occurs.
\<close>

unbundle bit_operations_syntax

subsection \<open>The output buffer\<close>

record Out =
  out_buf :: "string option"
  out_oom :: bool

definition out_init :: Out where
  "out_init = \<lparr>out_buf = None, out_oom = False\<rparr>"

text \<open>
  One call with the formatted text \<open>s\<close>. The copy takes \<open>length s\<close> bytes out of a 256-byte
  array that holds at most 255 characters of it, so a longer text is outside the model.
\<close>

definition out_printf :: "string \<Rightarrow> Out \<Rightarrow> Out option" where
  "out_printf s out =
     (if out_oom out then Some out
      else if length s > 255 then None
      else Some (out\<lparr>out_buf := Some (case out_buf out of None \<Rightarrow> s | Some t \<Rightarrow> t @ s)\<rparr>))"

subsection \<open>Mnemonics and operands\<close>

fun mnemonic_for :: "Opcode \<Rightarrow> string option" where
  "mnemonic_for OP_NOP = Some ''NOP''"
| "mnemonic_for OP_MOV = Some ''MOV''"
| "mnemonic_for OP_ADD = Some ''ADD''"
| "mnemonic_for OP_SUB = Some ''SUB''"
| "mnemonic_for OP_MUL = Some ''MUL''"
| "mnemonic_for OP_DIV = Some ''DIV''"
| "mnemonic_for OP_MOD = Some ''MOD''"
| "mnemonic_for OP_AND = Some ''AND''"
| "mnemonic_for OP_OR = Some ''OR''"
| "mnemonic_for OP_XOR = Some ''XOR''"
| "mnemonic_for OP_NOT = Some ''NOT''"
| "mnemonic_for OP_SHL = Some ''SHL''"
| "mnemonic_for OP_SHR = Some ''SHR''"
| "mnemonic_for OP_LOAD = Some ''LOAD''"
| "mnemonic_for OP_STORE = Some ''STORE''"
| "mnemonic_for OP_PUSH = Some ''PUSH''"
| "mnemonic_for OP_POP = Some ''POP''"
| "mnemonic_for OP_CMP = Some ''CMP''"
| "mnemonic_for OP_JMP = Some ''JMP''"
| "mnemonic_for OP_JZ = Some ''JZ''"
| "mnemonic_for OP_JNZ = Some ''JNZ''"
| "mnemonic_for OP_JG = Some ''JG''"
| "mnemonic_for OP_JGE = Some ''JGE''"
| "mnemonic_for OP_JL = Some ''JL''"
| "mnemonic_for OP_JLE = Some ''JLE''"
| "mnemonic_for OP_JB = Some ''JB''"
| "mnemonic_for OP_JAE = Some ''JAE''"
| "mnemonic_for OP_JA = Some ''JA''"
| "mnemonic_for OP_JBE = Some ''JBE''"
| "mnemonic_for OP_CALL = Some ''CALL''"
| "mnemonic_for OP_RET = Some ''RET''"
| "mnemonic_for OP_SYS = Some ''SYS''"
| "mnemonic_for OP_HALT = Some ''HALT''"
| "mnemonic_for (OP_UNDEFINED b) = None"

definition syscall_name_for :: "u16 \<Rightarrow> string option" where
  "syscall_name_for code =
     (if code = 0x01 then Some ''PRINT_INT''
      else if code = 0x02 then Some ''PRINT_CHAR''
      else if code = 0x03 then Some ''READ_INT''
      else if code = 0x04 then Some ''EXIT''
      else None)"

definition format_operand :: "Opcode \<Rightarrow> Operand \<Rightarrow> u8 \<Rightarrow> Out \<Rightarrow> Out option" where
  "format_operand opcode op legal_mask out =
     (case op_mode op of
        MODE_NONE \<Rightarrow> Some out
      | MODE_REG \<Rightarrow> out_printf (''R'' @ fmt_u (unat (op_value op))) out
      | MODE_REG_INDIRECT \<Rightarrow> out_printf (''[R'' @ fmt_u (unat (op_value op)) @ '']'') out
      | MODE_IMM16 \<Rightarrow> out_printf (fmt_u (unat (op_value op))) out
      | MODE_IMM8 \<Rightarrow>
          (case (if opcode = OP_SYS then syscall_name_for (op_value op) else None) of
             Some name \<Rightarrow> out_printf name out
           | None \<Rightarrow> out_printf (fmt_u (unat (op_value op))) out)
      | MODE_MEM_DIRECT \<Rightarrow>
          (if legal_mask AND push_bit 4 1 \<noteq> 0
           then out_printf (''[0x'' @ fmt_0X 4 (unat (op_value op)) @ '']'') out
           else out_printf (''0x'' @ fmt_0X 4 (unat (op_value op))) out)
      | MODE_UNDEFINED v \<Rightarrow> Some out)"

definition format_instruction :: "Instruction \<Rightarrow> Out \<Rightarrow> Out option" where
  "format_instruction instr out =
     (let (op1_modes, op2_modes) =
            (case instruction_opcode_modes (instr_opcode instr) of Some ms \<Rightarrow> ms | None \<Rightarrow> (0, 0))
      in do {
        name \<leftarrow> mnemonic_for (instr_opcode instr);
        out \<leftarrow> out_printf name out;
        if op_mode (instr_op1 instr) \<noteq> MODE_NONE then do {
          out \<leftarrow> out_printf '' '' out;
          out \<leftarrow> format_operand (instr_opcode instr) (instr_op1 instr) op1_modes out;
          if op_mode (instr_op2 instr) \<noteq> MODE_NONE then do {
            out \<leftarrow> out_printf '', '' out;
            format_operand (instr_opcode instr) (instr_op2 instr) op2_modes out
          } else Some out
        } else Some out
      })"

subsection \<open>One instruction of live memory\<close>

text \<open>Whether the bytes decode, the text in the caller's buffer, and the next address.\<close>

definition disassemble_one :: "Memory \<Rightarrow> u16 \<Rightarrow> nat \<Rightarrow> (bool \<times> string \<times> u16) option" where
  "disassemble_one mem addr buf_size =
     (case instruction_decode mem addr of
        Inl e \<Rightarrow> Some (False, snprintf buf_size (''.byte 0x'' @ fmt_0X 2 (unat (mem_read8 mem addr))), addr + 1)
      | Inr (instr, next) \<Rightarrow> do {
          out \<leftarrow> format_instruction instr out_init;
          let text = (case out_buf out of
             None \<Rightarrow> ''<out of memory>''
           | Some buf \<Rightarrow> if out_oom out then ''<out of memory>'' else buf);
          Some (True, snprintf buf_size text, next)
        })"

subsection \<open>A whole image\<close>

lemma pc_step_less: "(pc :: u16) < end_pc \<Longrightarrow> unat end_pc - unat (pc + 1) < unat end_pc - unat pc"
proof -
  assume lt: "pc < end_pc"
  then have "unat pc + 1 < 65536" using unat_lt_65536 [of end_pc] by (simp add: word_less_nat_alt)
  then have "unat (pc + 1) = unat pc + 1" by (simp add: unat_word_ariths)
  with lt show ?thesis by (simp add: word_less_nat_alt)
qed

text \<open>The loop over the code: \<open>pc\<close> up to \<open>end_pc\<close>.\<close>

function disassemble_code :: "Memory \<Rightarrow> u16 \<Rightarrow> u16 \<Rightarrow> Out \<Rightarrow> Out option" where
  "disassemble_code mem pc end_pc out =
     (if pc < end_pc then
        (case instruction_decode mem pc of
           Inr (instr, next) \<Rightarrow>
             if next > end_pc \<or> next \<le> pc then do {
               out \<leftarrow> out_printf (''    .byte 0x'' @ fmt_0X 2 (unat (mem_read8 mem pc)) @ [CHR 0x0A]) out;
               disassemble_code mem (pc + 1) end_pc out
             } else do {
               out \<leftarrow> out_printf ''    '' out;
               out \<leftarrow> format_instruction instr out;
               out \<leftarrow> out_printf [CHR 0x0A] out;
               disassemble_code mem next end_pc out
             }
         | Inl e \<Rightarrow> do {
             out \<leftarrow> out_printf (''    .byte 0x'' @ fmt_0X 2 (unat (mem_read8 mem pc)) @ [CHR 0x0A]) out;
             disassemble_code mem (pc + 1) end_pc out
           })
      else Some out)"
  by pat_completeness auto
termination
  by (relation "measure (\<lambda>(mem, pc, end_pc, out). unat end_pc - unat pc)")
    (auto simp: pc_step_less word_less_nat_alt word_le_nat_alt not_le not_less)

declare disassemble_code.simps [simp del]

text \<open>The loop over the data bytes.\<close>

function disassemble_data :: "u8 list \<Rightarrow> nat \<Rightarrow> u16 \<Rightarrow> u16 \<Rightarrow> Out \<Rightarrow> Out option" where
  "disassemble_data img off data_size i out =
     (if i < data_size then do {
        b \<leftarrow> byte_at img (off + unat i);
        out \<leftarrow> out_printf (''    .byte 0x'' @ fmt_0X 2 (unat b) @ [CHR 0x0A]) out;
        disassemble_data img off data_size (i + 1) out
      } else Some out)"
  by pat_completeness auto
termination
  by (relation "measure (\<lambda>(img, off, data_size, i, out). unat data_size - unat i)") (auto simp: pc_step_less)

declare disassemble_data.simps [simp del]

text \<open>The result: \<^const>\<open>Inl\<close> of \<open>out->error\<close>, or \<^const>\<open>Inr\<close> of \<open>out->text\<close>.\<close>

definition disassemble :: "u8 list \<Rightarrow> (string + string) option" where
  "disassemble img =
     (if length img < BVM_HEADER_SIZE then Some (Inl (snprintf 256 ''not a valid BVM1 image''))
      else do {
        magic \<leftarrow> memcmp_magic img;
        version \<leftarrow> byte_at img 4;
        reserved \<leftarrow> byte_at img 5;
        if \<not> magic \<or> version \<noteq> 1 \<or> reserved \<noteq> 0 then Some (Inl (snprintf 256 ''not a valid BVM1 image''))
        else do {
          entry_point \<leftarrow> read_u16_le img 6;
          code_size \<leftarrow> read_u16_le img 8;
          code_addr \<leftarrow> read_u16_le img 10;
          data_size \<leftarrow> read_u16_le img 12;
          data_addr \<leftarrow> read_u16_le img 14;
          if length img < BVM_HEADER_SIZE + unat code_size + unat data_size
          then Some (Inl (snprintf 256 ''image is shorter than its header claims''))
          else if entry_point \<noteq> code_addr
          then Some (Inl (snprintf 256 (''entry_point (0x'' @ fmt_0X 4 (unat entry_point)
                 @ '') differs from code_addr (0x'' @ fmt_0X 4 (unat code_addr)
                 @ ''); no .asm form of this exists'')))
          else do {
            mem \<leftarrow> load_loop (mem_init \<lparr>mem_data = (\<lambda>_. 0)\<rparr>) (ucast code_addr) img BVM_HEADER_SIZE (unat code_size) 0;
            out \<leftarrow> out_printf (''; disassembled from a .bvm image'' @ [CHR 0x0A]) out_init;
            out \<leftarrow> out_printf (''; code: '' @ fmt_u (unat code_size) @ '' bytes at 0x'' @ fmt_0X 4 (unat code_addr)) out;
            out \<leftarrow> (if data_size > 0
              then out_printf ('', data: '' @ fmt_u (unat data_size) @ '' bytes at 0x'' @ fmt_0X 4 (unat data_addr)) out
              else Some out);
            out \<leftarrow> out_printf [CHR 0x0A, CHR 0x0A] out;
            out \<leftarrow> (if code_addr \<noteq> 0 then out_printf (''.org 0x'' @ fmt_0X 4 (unat code_addr) @ [CHR 0x0A]) out
              else Some out);
            let end_pc = code_addr + code_size;
            out \<leftarrow> disassemble_code mem code_addr end_pc out;
            out \<leftarrow> (if data_size > 0 then do {
                out \<leftarrow> out_printf (CHR 0x0A # ''.data'' @ [CHR 0x0A]) out;
                out \<leftarrow> (if data_addr \<noteq> end_pc
                  then out_printf (''.org 0x'' @ fmt_0X 4 (unat data_addr) @ [CHR 0x0A]) out else Some out);
                disassemble_data img (BVM_HEADER_SIZE + unat code_size) data_size 0 out
              } else Some out);
            if out_oom out then Some (Inl (snprintf 256 ''out of memory''))
            else (case out_buf out of None \<Rightarrow> None | Some text \<Rightarrow> Some (Inr text))
          }
        }
      })"

end
