(* ===== verification/Bvm_Cstring.thy ===== *)
theory Bvm_Cstring
  imports Bvm_Libc
begin

text \<open>
  The string functions of the C library the debugger reads its commands with: \<open>fgets\<close>,
  \<open>strtok\<close> and \<open>strtol\<close> (src/debugger.c uses them; the functions themselves are those of the
  language standard, \<open>long\<close> has 64 bits). A C string is the characters before its NUL.
\<close>

definition cstr :: "string \<Rightarrow> string" where
  "cstr s = takeWhile (\<lambda>c. c \<noteq> CHR 0x00) s"

subsection \<open>fgets\<close>

fun fgets_line :: "nat \<Rightarrow> string \<Rightarrow> string \<times> string" where
  "fgets_line 0 cs = ([], cs)"
| "fgets_line (Suc n) [] = ([], [])"
| "fgets_line (Suc n) (c # cs) =
     (if c = CHR 0x0A then ([c], cs) else let (l, rest) = fgets_line n cs in (c # l, rest))"

text \<open>\<open>fgets\<close> into a buffer of \<open>sz\<close> bytes; \<^const>\<open>None\<close> at the end of the input.\<close>

definition fgets :: "nat \<Rightarrow> string \<Rightarrow> (string \<times> string) option" where
  "fgets sz cs = (if cs = [] then None else Some (fgets_line (sz - 1) cs))"

lemma fgets_line_split: "fgets_line n cs = (l, rest) \<Longrightarrow> l @ rest = cs"
  by (induction n cs arbitrary: l rest rule: fgets_line.induct) (auto split: if_splits prod.splits)

lemma fgets_shorter: "2 \<le> sz \<Longrightarrow> fgets sz cs = Some (l, rest) \<Longrightarrow> length rest < length cs"
proof -
  assume s: "2 \<le> sz" and f: "fgets sz cs = Some (l, rest)"
  then obtain c cs' where cs: "cs = c # cs'" by (cases cs) (auto simp: fgets_def)
  obtain k where k: "sz - 1 = Suc k" using s by (cases "sz - 1") auto
  have "l @ rest = cs" "l \<noteq> []"
    using f fgets_line_split [of "sz - 1" cs l rest] cs k by (auto simp: fgets_def split: if_splits prod.splits)
  then show ?thesis by (metis length_append length_greater_0_conv less_add_same_cancel2)
qed

subsection \<open>strtok\<close>

definition is_delim :: "char \<Rightarrow> bool" where
  "is_delim c \<longleftrightarrow> c = CHR '' '' \<or> c = CHR 0x09 \<or> c = CHR 0x0D \<or> c = CHR 0x0A"

text \<open>\<open>strtok\<close> with the delimiters space, tab, CR and LF: the token and the saved position.\<close>

definition strtok :: "string \<Rightarrow> string option \<times> string" where
  "strtok p =
     (let q = dropWhile is_delim p
      in if q = [] then (None, [])
         else (Some (takeWhile (\<lambda>c. \<not> is_delim c) q), drop 1 (dropWhile (\<lambda>c. \<not> is_delim c) q)))"

subsection \<open>strtol\<close>

definition is_space :: "char \<Rightarrow> bool" where
  "is_space c \<longleftrightarrow> c = CHR '' '' \<or> (9 \<le> (of_char c :: nat) \<and> (of_char c :: nat) \<le> 13)"

definition base_digit :: "nat \<Rightarrow> char \<Rightarrow> bool" where
  "base_digit base c \<longleftrightarrow> (if base = 16 then is_xdigit c else is_digit c)"

definition base_digit_val :: "char \<Rightarrow> nat" where
  "base_digit_val c = (if is_digit c then of_char c - 48 else of_char (to_lower c) - 87)"

fun digits_value :: "nat \<Rightarrow> int \<Rightarrow> string \<Rightarrow> int" where
  "digits_value base acc [] = acc"
| "digits_value base acc (c # cs) = digits_value base (acc * int base + int (base_digit_val c)) cs"

definition clamp_long :: "int \<Rightarrow> int" where
  "clamp_long v = max (- 0x8000000000000000) (min 0x7FFFFFFFFFFFFFFF v)"

text \<open>
  \<open>strtol\<close> for the bases 10 and 16: white space, a sign, for base 16 an optional \<open>0x\<close> before
  a digit, then the digits. The value is clamped to the range of \<open>long\<close>; the second
  component is where \<open>*end\<close> points, the whole string when there is no digit.
\<close>

definition strtol :: "nat \<Rightarrow> string \<Rightarrow> int \<times> string" where
  "strtol base s =
     (let p = dropWhile is_space s;
          negative = (p \<noteq> [] \<and> hd p = CHR ''-'');
          p = (if p \<noteq> [] \<and> (hd p = CHR ''-'' \<or> hd p = CHR ''+'') then tl p else p);
          p = (case p of
                 z # x # d # ds \<Rightarrow>
                   if base = 16 \<and> z = CHR ''0'' \<and> (x = CHR ''x'' \<or> x = CHR ''X'') \<and> is_xdigit d then d # ds else p
               | _ \<Rightarrow> p);
          ds = takeWhile (base_digit base) p
      in if ds = [] then (0, s)
         else (clamp_long (if negative then - digits_value base 0 ds else digits_value base 0 ds),
               dropWhile (base_digit base) p))"

end
