(* ===== verification/Bvm_Debugger.thy ===== *)
theory Bvm_Debugger
  imports Bvm_Disassembler Bvm_Cstring
begin

text \<open>
  The debugger (include/bytevm/debugger.h, src/debugger.c), reading its commands from standard
  input and writing to standard output, as the command line runs it: the console of the
  debugged program is the same \<^typ>\<open>Host\<close>. A command returns the new debugger and console;
  \<^const>\<open>None\<close> is undefined behaviour (in the machine, or a write past the breakpoint
  array). The array \<open>breakpoints\<close> with \<open>breakpoint_count\<close> is the list of its used entries,
  a C \<open>long\<close> is an \<^typ>\<open>int\<close> (all values are far below \<open>2^63\<close>).
\<close>

unbundle bit_operations_syntax

definition CONTINUE_STEP_LIMIT :: nat where
  "CONTINUE_STEP_LIMIT = 10000000"

definition DEBUGGER_MAX_BREAKPOINTS :: nat where
  "DEBUGGER_MAX_BREAKPOINTS = 64"

record Debugger =
  dbg_vm :: VM
  dbg_image :: "u8 list"
  dbg_breakpoints :: "u16 list"
  dbg_quit_requested :: bool

definition debugger_init :: "VM \<Rightarrow> u8 list \<Rightarrow> Debugger" where
  "debugger_init vm img = \<lparr>dbg_vm = vm, dbg_image = img, dbg_breakpoints = [], dbg_quit_requested = False\<rparr>"

fun has_breakpoint :: "u16 list \<Rightarrow> u16 \<Rightarrow> bool" where
  "has_breakpoint [] addr = False"
| "has_breakpoint (b # bs) addr = (if b = addr then True else has_breakpoint bs addr)"

subsection \<open>Arguments\<close>

text \<open>The argument is a C string or NULL; the result is \<open>*out\<close> when the function returns true.\<close>

definition parse_number :: "string option \<Rightarrow> int option" where
  "parse_number arg =
     (case arg of
        None \<Rightarrow> None
      | Some s \<Rightarrow>
          if s = [] then None
          else
            let base = (if hd s = CHR ''0'' \<and> tl s \<noteq> [] \<and> (hd (tl s) = CHR ''x'' \<or> hd (tl s) = CHR ''X'')
                        then 16 else 10);
                (v, rest) = strtol base s
            in if rest = s \<or> rest \<noteq> [] \<or> v < 0 \<or> v > 0xFFFF then None else Some v)"

subsection \<open>The commands\<close>

type_synonym session = "(Debugger \<times> Host) option"

fun print_registers :: "CPU \<Rightarrow> nat list \<Rightarrow> Host \<Rightarrow> Host option" where
  "print_registers cpu [] h = Some h"
| "print_registers cpu (i # is) h = do {
     r \<leftarrow> reg_get cpu (of_nat i);
     print_registers cpu is (putstr h (''R'' @ fmt_d (int i) @ ''=0x'' @ fmt_0X 4 (unat r)
       @ (if i = 3 \<or> i = 7 then [CHR 0x0A] else ''  '')))
   }"

definition cmd_registers :: "Debugger \<Rightarrow> Host \<Rightarrow> session" where
  "cmd_registers dbg h = do {
     let cpu = vm_cpu (dbg_vm dbg);
     h \<leftarrow> print_registers cpu [0..<8] h;
     let h = putstr h (''PC=0x'' @ fmt_0X 4 (unat (cpu_pc cpu)) @ ''  SP=0x'' @ fmt_0X 4 (unat (cpu_sp cpu))
       @ ''  FLAGS=0x'' @ fmt_0X 4 (unat (cpu_flags cpu)) @ '' [''
       @ [if cpu_get_flag cpu CPU_FLAG_Z then CHR ''Z'' else CHR ''-'',
          if cpu_get_flag cpu CPU_FLAG_C then CHR ''C'' else CHR ''-'',
          if cpu_get_flag cpu CPU_FLAG_S then CHR ''S'' else CHR ''-'',
          if cpu_get_flag cpu CPU_FLAG_O then CHR ''O'' else CHR ''-''] @ '']'' @ [CHR 0x0A]);
     Some (dbg, if vm_halted (dbg_vm dbg)
                then putstr h (''halted: '' @ vm_result_str (vm_last_error (dbg_vm dbg)) @ [CHR 0x0A]) else h)
   }"

definition report_stop :: "Debugger \<Rightarrow> Host \<Rightarrow> Host option" where
  "report_stop dbg h =
     (let vm = dbg_vm dbg
      in if vm_halted vm then
           Some (putstr h (if vm_last_error vm \<noteq> VM_OK
             then ''halted: '' @ vm_result_str (vm_last_error vm) @ '' at PC=0x'' @ fmt_0X 4 (unat (vm_error_pc vm)) @ [CHR 0x0A]
             else ''halted'' @ [CHR 0x0A]))
         else do {
           (ok, text, unused) \<leftarrow> disassemble_one (vm_memory vm) (cpu_pc (vm_cpu vm)) 128;
           Some (putstr h (''PC=0x'' @ fmt_0X 4 (unat (cpu_pc (vm_cpu vm))) @ '': '' @ text @ [CHR 0x0A]))
         })"

fun step_loop :: "nat \<Rightarrow> VM \<Rightarrow> Host \<Rightarrow> (VM \<times> Host) option" where
  "step_loop 0 vm h = Some (vm, h)"
| "step_loop (Suc n) vm h =
     (if vm_halted vm then Some (vm, h)
      else do { (r, vm, h) \<leftarrow> vm_step vm h; step_loop n vm h })"

definition cmd_step :: "Debugger \<Rightarrow> string option \<Rightarrow> Host \<Rightarrow> session" where
  "cmd_step dbg arg h =
     (case (if arg = None then Some 1 else parse_number arg) of
        None \<Rightarrow> Some (dbg, putstr h (''error: step takes a count'' @ [CHR 0x0A]))
      | Some n \<Rightarrow> do {
          (vm, h) \<leftarrow> step_loop (nat n) (dbg_vm dbg) h;
          let dbg = dbg\<lparr>dbg_vm := vm\<rparr>;
          h \<leftarrow> report_stop dbg h;
          Some (dbg, h)
        })"

text \<open>The loop of \<open>continue\<close>; the first component tells that it stopped at a breakpoint.\<close>

function continue_loop :: "u16 list \<Rightarrow> nat \<Rightarrow> VM \<Rightarrow> Host \<Rightarrow> (bool \<times> VM \<times> Host) option" where
  "continue_loop bps steps vm h =
     (if \<not> vm_halted vm \<and> steps < CONTINUE_STEP_LIMIT then
        if has_breakpoint bps (cpu_pc (vm_cpu vm)) then Some (True, vm, h)
        else do { (r, vm, h) \<leftarrow> vm_step vm h; continue_loop bps (steps + 1) vm h }
      else Some (False, vm, h))"
  by pat_completeness auto
termination
  by (relation "measure (\<lambda>(bps, steps, vm, h). CONTINUE_STEP_LIMIT - steps)") auto

declare continue_loop.simps [simp del]

definition cmd_continue :: "Debugger \<Rightarrow> Host \<Rightarrow> session" where
  "cmd_continue dbg h =
     (if vm_halted (dbg_vm dbg) then Some (dbg, putstr h (''halted'' @ [CHR 0x0A]))
      else do {
        (r, vm, h) \<leftarrow> vm_step (dbg_vm dbg) h;
        (at_breakpoint, vm, h) \<leftarrow> continue_loop (dbg_breakpoints dbg) 1 vm h;
        let dbg = dbg\<lparr>dbg_vm := vm\<rparr>;
        let h = (if at_breakpoint
                 then putstr h (''breakpoint at 0x'' @ fmt_0X 4 (unat (cpu_pc (vm_cpu vm))) @ [CHR 0x0A])
                 else if \<not> vm_halted vm
                 then putstr h (''step limit ('' @ fmt_d (int CONTINUE_STEP_LIMIT) @ '') reached without halting'' @ [CHR 0x0A])
                 else h);
        h \<leftarrow> report_stop dbg h;
        Some (dbg, h)
      })"

definition cmd_break :: "Debugger \<Rightarrow> string option \<Rightarrow> Host \<Rightarrow> session" where
  "cmd_break dbg arg h =
     (case parse_number arg of
        None \<Rightarrow> Some (dbg, putstr h (''error: break takes an address'' @ [CHR 0x0A]))
      | Some addr \<Rightarrow>
          if has_breakpoint (dbg_breakpoints dbg) (of_int addr)
          then Some (dbg, putstr h (''breakpoint at 0x'' @ fmt_0X 4 (nat addr) @ '' already set'' @ [CHR 0x0A]))
          else if length (dbg_breakpoints dbg) = DEBUGGER_MAX_BREAKPOINTS
          then Some (dbg, putstr h (''error: too many breakpoints (max ''
                 @ fmt_d (int DEBUGGER_MAX_BREAKPOINTS) @ '')'' @ [CHR 0x0A]))
          else if length (dbg_breakpoints dbg) > DEBUGGER_MAX_BREAKPOINTS then None
          else Some (dbg\<lparr>dbg_breakpoints := dbg_breakpoints dbg @ [of_int addr]\<rparr>,
                     putstr h (''breakpoint set at 0x'' @ fmt_0X 4 (nat addr) @ [CHR 0x0A])))"

text \<open>The search loop of \<open>delete\<close>: the first index that holds the address.\<close>

fun breakpoint_index :: "u16 list \<Rightarrow> u16 \<Rightarrow> nat option" where
  "breakpoint_index [] addr = None"
| "breakpoint_index (b # bs) addr = (if b = addr then Some 0 else map_option Suc (breakpoint_index bs addr))"

definition cmd_delete :: "Debugger \<Rightarrow> string option \<Rightarrow> Host \<Rightarrow> session" where
  "cmd_delete dbg arg h =
     (case parse_number arg of
        None \<Rightarrow> Some (dbg, putstr h (''error: delete takes an address'' @ [CHR 0x0A]))
      | Some addr \<Rightarrow>
          (case breakpoint_index (dbg_breakpoints dbg) (of_int addr) of
             Some i \<Rightarrow>
               Some (dbg\<lparr>dbg_breakpoints := butlast ((dbg_breakpoints dbg)[i := last (dbg_breakpoints dbg)])\<rparr>,
                     putstr h (''breakpoint at 0x'' @ fmt_0X 4 (nat addr) @ '' removed'' @ [CHR 0x0A]))
           | None \<Rightarrow> Some (dbg, putstr h (''error: no breakpoint at 0x'' @ fmt_0X 4 (nat addr) @ [CHR 0x0A]))))"

text \<open>One row of the dump: up to 16 bytes, fewer when \<open>count\<close> ends in it.\<close>

definition dump_row :: "Memory \<Rightarrow> u16 \<Rightarrow> int \<Rightarrow> int \<Rightarrow> string" where
  "dump_row mem addr count i =
     ''0x'' @ fmt_0X 4 (unat (addr + of_int i)) @ '':''
     @ concat (map (\<lambda>j. '' '' @ fmt_0X 2 (unat (mem_read8 mem (addr + of_int (i + int j))))) [0..<nat (min 16 (count - i))])
     @ [CHR 0x0A]"

function hex_dump :: "Memory \<Rightarrow> u16 \<Rightarrow> int \<Rightarrow> int \<Rightarrow> Host \<Rightarrow> Host" where
  "hex_dump mem addr count i h =
     (if i < count then hex_dump mem addr count (i + 16) (putstr h (dump_row mem addr count i)) else h)"
  by pat_completeness auto
termination
  by (relation "measure (\<lambda>(mem, addr, count, i, h). nat (count - i))") auto

declare hex_dump.simps [simp del]

definition cmd_memory :: "Debugger \<Rightarrow> string option \<Rightarrow> string option \<Rightarrow> Host \<Rightarrow> session" where
  "cmd_memory dbg addr_arg count_arg h =
     (let usage = ''error: memory takes an address and an optional byte count'' @ [CHR 0x0A]
      in case parse_number addr_arg of
           None \<Rightarrow> Some (dbg, putstr h usage)
         | Some addr \<Rightarrow>
             (case (if count_arg = None then Some 16 else parse_number count_arg) of
                None \<Rightarrow> Some (dbg, putstr h usage)
              | Some count \<Rightarrow>
                  if count \<le> 0 then Some (dbg, putstr h (''error: count must be positive'' @ [CHR 0x0A]))
                  else Some (dbg, hex_dump (vm_memory (dbg_vm dbg)) (of_int addr) count 0 h)))"

definition cmd_stack :: "Debugger \<Rightarrow> Host \<Rightarrow> session" where
  "cmd_stack dbg h =
     (let sp = cpu_sp (vm_cpu (dbg_vm dbg))
      in if sp = CPU_INITIAL_SP
         then Some (dbg, putstr h (''stack is empty (SP=0x'' @ fmt_0X 4 (unat sp) @ '')'' @ [CHR 0x0A]))
         else
           let count = 0xFFFF - uint sp + 1;
               h = putstr h (''stack (SP=0x'' @ fmt_0X 4 (unat sp) @ '', '' @ fmt_d (count - 2) @ '' bytes live):'' @ [CHR 0x0A])
           in Some (dbg, hex_dump (vm_memory (dbg_vm dbg)) (sp + 2) (count - 2) 0 h))"

fun disassemble_lines :: "nat \<Rightarrow> VM \<Rightarrow> u16 \<Rightarrow> Host \<Rightarrow> Host option" where
  "disassemble_lines 0 vm pc h = Some h"
| "disassemble_lines (Suc n) vm pc h = do {
     (ok, text, next) \<leftarrow> disassemble_one (vm_memory vm) pc 128;
     disassemble_lines n vm next
       (putstr h ([if pc = cpu_pc (vm_cpu vm) then CHR ''>'' else CHR '' '']
          @ ''0x'' @ fmt_0X 4 (unat pc) @ '': '' @ text @ [CHR 0x0A]))
   }"

definition cmd_disassemble :: "Debugger \<Rightarrow> string option \<Rightarrow> string option \<Rightarrow> Host \<Rightarrow> session" where
  "cmd_disassemble dbg addr_arg count_arg h =
     (let usage = ''error: disassemble takes an address and an optional instruction count'' @ [CHR 0x0A]
      in case (if addr_arg = None then Some (uint (cpu_pc (vm_cpu (dbg_vm dbg)))) else parse_number addr_arg) of
           None \<Rightarrow> Some (dbg, putstr h usage)
         | Some addr \<Rightarrow>
             (case (if count_arg = None then Some 8 else parse_number count_arg) of
                None \<Rightarrow> Some (dbg, putstr h usage)
              | Some count \<Rightarrow>
                  if count \<le> 0 then Some (dbg, putstr h (''error: count must be positive'' @ [CHR 0x0A]))
                  else do {
                    h \<leftarrow> disassemble_lines (nat count) (dbg_vm dbg) (of_int addr) h;
                    Some (dbg, h)
                  }))"

definition cmd_reset :: "Debugger \<Rightarrow> Host \<Rightarrow> session" where
  "cmd_reset dbg h = do {
     (r, vm) \<leftarrow> vm_load (dbg_vm dbg) (dbg_image dbg);
     let dbg = dbg\<lparr>dbg_vm := vm\<rparr>;
     if r \<noteq> VM_OK then Some (dbg, putstr h (''error: reload failed: '' @ vm_result_str r @ [CHR 0x0A]))
     else Some (dbg, putstr h (''reset; PC=0x'' @ fmt_0X 4 (unat (cpu_pc (vm_cpu vm))) @ '', ''
            @ fmt_u (length (dbg_breakpoints dbg)) @ '' breakpoint(s) kept'' @ [CHR 0x0A]))
   }"

subsection \<open>Dispatch\<close>

definition help_text :: string where
  "help_text =
     ''registers          print R0-R7, PC, SP, FLAGS'' @ [CHR 0x0A]
     @ ''step [n]           execute n instructions (default 1)'' @ [CHR 0x0A]
     @ ''continue           run until a breakpoint or HALT'' @ [CHR 0x0A]
     @ ''break <addr>       set a breakpoint'' @ [CHR 0x0A]
     @ ''delete <addr>      remove a breakpoint'' @ [CHR 0x0A]
     @ ''memory <addr> [n]  hex-dump n bytes (default 16)'' @ [CHR 0x0A]
     @ ''stack              dump the live stack'' @ [CHR 0x0A]
     @ ''disassemble [addr] [n]  disassemble n instructions (default: at PC, 8)'' @ [CHR 0x0A]
     @ ''reset              reload the program and reset CPU state'' @ [CHR 0x0A]
     @ ''quit               exit'' @ [CHR 0x0A]"

text \<open>The result is what the function returns, with the new debugger and console.\<close>

definition debugger_execute :: "Debugger \<Rightarrow> string \<Rightarrow> Host \<Rightarrow> (bool \<times> Debugger \<times> Host) option" where
  "debugger_execute dbg line h =
     (let buf = snprintf 256 (cstr line);
          (cmd, p) = strtok buf
      in case cmd of
           None \<Rightarrow> Some (\<not> dbg_quit_requested dbg, dbg, h)
         | Some cmd \<Rightarrow>
             let (arg1, p) = strtok p;
                 (arg2, p) = strtok p
             in if cmd = ''quit'' \<or> cmd = ''q'' then Some (False, dbg\<lparr>dbg_quit_requested := True\<rparr>, h)
                else map_option (\<lambda>r. (True, r))
                  (if cmd = ''registers'' \<or> cmd = ''r'' then cmd_registers dbg h
                   else if cmd = ''step'' \<or> cmd = ''s'' then cmd_step dbg arg1 h
                   else if cmd = ''continue'' \<or> cmd = ''c'' then cmd_continue dbg h
                   else if cmd = ''break'' \<or> cmd = ''b'' then cmd_break dbg arg1 h
                   else if cmd = ''delete'' \<or> cmd = ''d'' then cmd_delete dbg arg1 h
                   else if cmd = ''memory'' \<or> cmd = ''m'' then cmd_memory dbg arg1 arg2 h
                   else if cmd = ''stack'' then cmd_stack dbg h
                   else if cmd = ''disassemble'' \<or> cmd = ''dis'' then cmd_disassemble dbg arg1 arg2 h
                   else if cmd = ''reset'' then cmd_reset dbg h
                   else if cmd = ''help'' \<or> cmd = ''h'' then Some (dbg, putstr h help_text)
                   else Some (dbg, putstr h (''error: unknown command '' @ [CHR 0x27] @ cmd @ [CHR 0x27]
                          @ '' (try 'help'' @ [CHR 0x27] @ '')'' @ [CHR 0x0A]))))"

text \<open>The loop over the command lines, which ends at the end of the input or at \<open>quit\<close>.\<close>

partial_function (option) repl_loop :: "Debugger \<Rightarrow> Host \<Rightarrow> (Debugger \<times> Host) option" where
  "repl_loop dbg h =
     (let h = putstr h ''(bytevm) ''
      in case fgets 256 (host_in h) of
           None \<Rightarrow> Some (dbg, putstr h [CHR 0x0A])
         | Some (line, rest) \<Rightarrow> do {
             (go_on, dbg, h) \<leftarrow> debugger_execute dbg line (h\<lparr>host_in := rest\<rparr>);
             if go_on then repl_loop dbg h else Some (dbg, h)
           })"

declare repl_loop.simps [code]

definition debugger_repl :: "Debugger \<Rightarrow> Host \<Rightarrow> (Debugger \<times> Host) option" where
  "debugger_repl dbg h = do {
     h \<leftarrow> report_stop dbg (putstr h (''ByteVM debugger. Type 'help'' @ [CHR 0x27] @ '' for commands.'' @ [CHR 0x0A]));
     repl_loop dbg h
   }"

end
