(* ===== verification/Bvm_Lexer.thy ===== *)
theory Bvm_Lexer
  imports Bvm_Libc
begin

text \<open>
  The lexer of the assembler (src/assembler/token.h, lexer.h, lexer.c). The source is the
  list of characters before the terminating NUL; the pointer \<open>p\<close> is the list of characters
  not read yet. Line numbers are natural numbers (a C \<open>int\<close> holds them for sources of fewer
  than \<open>2^31\<close> lines) and allocation succeeds.
\<close>

subsection \<open>Results\<close>

text \<open>
  A failed assembly: a message with its line, or an operation that C leaves undefined
  (overflow of \<open>int64_t\<close>, a write outside a 64 KB buffer).
\<close>

datatype asm_error = AsmError string nat | AsmUB

subsection \<open>Tokens\<close>

datatype TokenType =
    TOK_EOF | TOK_NEWLINE | TOK_IDENT | TOK_DIRECTIVE | TOK_NUMBER | TOK_STRING
  | TOK_COMMA | TOK_COLON | TOK_LBRACKET | TOK_RBRACKET

record Token =
  tok_type :: TokenType
  tok_line :: nat
  tok_text :: string
  tok_num_value :: int
  tok_str_value :: "u8 list"

text \<open>PUSH_SIMPLE's token, and the three kinds of token with a payload.\<close>

definition simple_tok :: "TokenType \<Rightarrow> nat \<Rightarrow> Token" where
  "simple_tok ty line = \<lparr>tok_type = ty, tok_line = line, tok_text = [], tok_num_value = 0, tok_str_value = []\<rparr>"

definition text_tok :: "TokenType \<Rightarrow> nat \<Rightarrow> string \<Rightarrow> Token" where
  "text_tok ty line s = (simple_tok ty line)\<lparr>tok_text := s\<rparr>"

definition num_tok :: "nat \<Rightarrow> int \<Rightarrow> Token" where
  "num_tok line v = (simple_tok TOK_NUMBER line)\<lparr>tok_num_value := v\<rparr>"

definition str_tok :: "nat \<Rightarrow> u8 list \<Rightarrow> Token" where
  "str_tok line bs = (simple_tok TOK_STRING line)\<lparr>tok_str_value := bs\<rparr>"

subsection \<open>Numbers\<close>

definition int64_max :: int where
  "int64_max = 0x7FFFFFFFFFFFFFFF"

definition hex_val :: "char \<Rightarrow> nat" where
  "hex_val c = (let ch = to_lower c
     in if 48 \<le> (of_char ch :: nat) \<and> (of_char ch :: nat) \<le> 57 then of_char ch - 48 else of_char ch - 97 + 10)"

text \<open>The two digit loops; a value that does not fit \<open>int64_t\<close> is undefined.\<close>

fun lex_hex_digits :: "string \<Rightarrow> int \<Rightarrow> asm_error + (int \<times> string)" where
  "lex_hex_digits [] value = Inr (value, [])"
| "lex_hex_digits (c # cs) value =
     (if is_xdigit c then
        let v = value * 16 + int (hex_val c)
        in if v > int64_max then Inl AsmUB else lex_hex_digits cs v
      else Inr (value, c # cs))"

fun lex_dec_digits :: "string \<Rightarrow> int \<Rightarrow> asm_error + (int \<times> string)" where
  "lex_dec_digits [] value = Inr (value, [])"
| "lex_dec_digits (c # cs) value =
     (if is_digit c then
        let v = value * 10 + int (digit_val c)
        in if v > int64_max then Inl AsmUB else lex_dec_digits cs v
      else Inr (value, c # cs))"

text \<open>The number after an optional minus sign, at a digit.\<close>

definition lex_magnitude :: "string \<Rightarrow> nat \<Rightarrow> asm_error + (int \<times> string)" where
  "lex_magnitude p line =
     (case p of
        z # x # rest \<Rightarrow>
          if z = CHR ''0'' \<and> (x = CHR ''x'' \<or> x = CHR ''X'') then
            (case rest of
               d # _ \<Rightarrow> if is_xdigit d then lex_hex_digits rest 0
                       else Inl (AsmError (''expected hex digits after '0x'' @ [CHR 0x27]) line)
             | [] \<Rightarrow> Inl (AsmError (''expected hex digits after '0x'' @ [CHR 0x27]) line))
          else lex_dec_digits p 0
      | _ \<Rightarrow> lex_dec_digits p 0)"

subsection \<open>String literals\<close>

definition char_byte :: "char \<Rightarrow> u8" where
  "char_byte c = of_nat (of_char c)"

definition escape_error :: string where
  "escape_error = ''unrecognized escape sequence in string literal (supported: '' @
     [CHR 0x5C] @ ''n '' @ [CHR 0x5C] @ ''r '' @ [CHR 0x5C] @ ''t '' @ [CHR 0x5C, CHR 0x5C] @ '' ''
     @ [CHR 0x5C, CHR 0x22] @ '' '' @ [CHR 0x5C] @ ''0 '' @ [CHR 0x5C] @ ''xNN)''"

definition hex_escape_error :: string where
  "hex_escape_error = CHR 0x5C # ''x escape needs exactly two hex digits''"

text \<open>One escape after the backslash: its byte and the rest, or the message.\<close>

definition lex_escape :: "string \<Rightarrow> string + (u8 \<times> string)" where
  "lex_escape p =
     (case p of
        [] \<Rightarrow> Inl escape_error
      | e # cs \<Rightarrow>
          if e = CHR ''n'' then Inr (10, cs)
          else if e = CHR ''r'' then Inr (13, cs)
          else if e = CHR ''t'' then Inr (9, cs)
          else if e = CHR 0x5C then Inr (0x5C, cs)
          else if e = CHR 0x22 then Inr (0x22, cs)
          else if e = CHR ''0'' then Inr (0, cs)
          else if e = CHR ''x'' then
            (case cs of
               a # b # rest \<Rightarrow>
                 if is_xdigit a \<and> is_xdigit b then Inr (of_nat (hex_val a * 16 + hex_val b), rest)
                 else Inl hex_escape_error
             | _ \<Rightarrow> Inl hex_escape_error)
          else Inl escape_error)"

lemma lex_escape_shorter: "lex_escape p = Inr (b, rest) \<Longrightarrow> length rest < length p"
  by (auto simp: lex_escape_def split: list.splits if_splits)

text \<open>The body of a string literal, after the opening quote.\<close>

function lex_string :: "string \<Rightarrow> nat \<Rightarrow> u8 list \<Rightarrow> asm_error + (u8 list \<times> string)" where
  "lex_string p line buf =
     (case p of
        [] \<Rightarrow> Inl (AsmError ''unterminated string literal'' line)
      | c # cs \<Rightarrow>
          if c = CHR 0x0A then Inl (AsmError ''unterminated string literal'' line)
          else if c = CHR 0x22 then Inr (buf, cs)
          else if c = CHR 0x5C then
            (case lex_escape cs of
               Inl msg \<Rightarrow> Inl (AsmError msg line)
             | Inr (b, rest) \<Rightarrow> lex_string rest line (buf @ [b]))
          else lex_string cs line (buf @ [char_byte c]))"
  by pat_completeness auto
termination
  by (relation "measure (\<lambda>(p, line, buf). length p)") (auto dest: lex_escape_shorter)

declare lex_string.simps [simp del]

subsection \<open>The main loop\<close>

lemma lex_string_shorter: "lex_string p line buf = Inr (bs, rest) \<Longrightarrow> length rest < length p"
proof (induction p line buf rule: lex_string.induct)
  case (1 p line buf)
  show ?case
  proof (cases "\<exists>cs. p = CHR 0x5C # cs")
    case True
    then obtain cs where p: "p = CHR 0x5C # cs" by blast
    with "1.prems" obtain b r where e: "lex_escape cs = Inr (b, r)" "lex_string r line (buf @ [b]) = Inr (bs, rest)"
      by (auto simp: lex_string.simps [of "CHR 0x5C # cs"] split: sum.splits)
    have "length rest < length r" using "1.IH"(1) [OF p _ _ _ e(1) refl e(2)] by simp
    with lex_escape_shorter [OF e(1)] p show ?thesis by simp
  next
    case False
    with "1.prems" [unfolded lex_string.simps [of p line buf]] show ?thesis
      by (auto split: list.splits if_splits dest: "1.IH"(2))
  qed
qed

lemma lex_hex_shorter: "lex_hex_digits p v = Inr (w, rest) \<Longrightarrow> length rest \<le> length p"
  by (induction p v rule: lex_hex_digits.induct) (auto simp: Let_def split: if_splits)

lemma lex_dec_shorter: "lex_dec_digits p v = Inr (w, rest) \<Longrightarrow> length rest \<le> length p"
  by (induction p v rule: lex_dec_digits.induct) (auto simp: Let_def split: if_splits)

lemma lex_magnitude_shorter:
  assumes "lex_magnitude (d # p) line = Inr (w, rest)" "is_digit d"
  shows "length rest \<le> length p"
proof -
  have dec: "length rest \<le> length p" if "lex_dec_digits (d # p) 0 = Inr (w, rest)"
    using that assms(2) by (auto simp: Let_def dest: lex_dec_shorter split: if_splits)
  show ?thesis
    using assms(1) dec lex_hex_shorter [of "tl p" 0 w rest]
    by (auto simp: lex_magnitude_def simp del: lex_hex_digits.simps lex_dec_digits.simps
        split: list.splits if_splits)
qed


definition is_ident_char :: "char \<Rightarrow> bool" where
  "is_ident_char c \<longleftrightarrow> is_alnum c \<or> c = CHR ''_''"

lemma dropWhile_shorter: "length (dropWhile P xs) \<le> length xs"
  by (induction xs) auto

text \<open>A number at a minus sign or a digit.\<close>

definition lex_number :: "char \<Rightarrow> string \<Rightarrow> nat \<Rightarrow> asm_error + (string \<times> nat \<times> Token option)" where
  "lex_number c cs line =
     (let negative = (c = CHR ''-'');
          p = (if negative then cs else c # cs)
      in case p of
           [] \<Rightarrow> Inl (AsmError (''expected a digit after '-'' @ [CHR 0x27]) line)
         | d # p' \<Rightarrow>
             if \<not> is_digit d then Inl (AsmError (''expected a digit after '-'' @ [CHR 0x27]) line)
             else (case lex_magnitude (d # p') line of
                     Inl e \<Rightarrow> Inl e
                   | Inr (value, rest) \<Rightarrow>
                       Inr (rest, line, Some (num_tok line (if negative then - value else value)))))"

text \<open>
  One round of the loop at the character \<open>c\<close>: the input and line to continue with and the
  token to append, if the round makes one.
\<close>

definition lex_round :: "char \<Rightarrow> string \<Rightarrow> nat \<Rightarrow> asm_error + (string \<times> nat \<times> Token option)" where
  "lex_round c cs line =
     (if c = CHR '' '' \<or> c = CHR 0x09 \<or> c = CHR 0x0D then Inr (cs, line, None)
      else if c = CHR '';'' then Inr (dropWhile (\<lambda>d. d \<noteq> CHR 0x0A) (c # cs), line, None)
      else if c = CHR 0x0A then Inr (cs, line + 1, Some (simple_tok TOK_NEWLINE line))
      else if c = CHR '','' then Inr (cs, line, Some (simple_tok TOK_COMMA line))
      else if c = CHR '':'' then Inr (cs, line, Some (simple_tok TOK_COLON line))
      else if c = CHR ''['' then Inr (cs, line, Some (simple_tok TOK_LBRACKET line))
      else if c = CHR '']'' then Inr (cs, line, Some (simple_tok TOK_RBRACKET line))
      else if c = CHR ''.'' then
        let name = takeWhile is_alpha cs
        in if name = [] then Inl (AsmError (CHR 0x27 # ''.' must be followed by a directive name'') line)
           else Inr (dropWhile is_alpha cs, line, Some (text_tok TOK_DIRECTIVE line name))
      else if c = CHR 0x22 then
        (case lex_string cs line [] of
           Inl e \<Rightarrow> Inl e
         | Inr (bs, rest) \<Rightarrow> Inr (rest, line, Some (str_tok line bs)))
      else if c = CHR ''-'' \<or> is_digit c then
        lex_number c cs line
      else if is_alpha c \<or> c = CHR ''_'' then
        Inr (dropWhile is_ident_char (c # cs), line,
             Some (text_tok TOK_IDENT line (takeWhile is_ident_char (c # cs))))
      else Inl (AsmError (''unexpected character '' @ [CHR 0x27, c, CHR 0x27]) line))"

lemma lex_number_shorter: "lex_number c cs line = Inr (p', line', t) \<Longrightarrow> length p' \<le> length cs"
  by (cases "c = CHR ''-''"; cases cs)
    (auto simp: lex_number_def dest: lex_magnitude_shorter split: if_splits sum.splits)

lemma lex_round_shorter:
  assumes "lex_round c cs line = Inr (p', line', t)"
  shows "length p' \<le> length cs"
proof -
  have "length (dropWhile is_ident_char (c # cs)) \<le> length cs" if "is_alpha c \<or> c = CHR ''_''"
    using that dropWhile_shorter [of is_ident_char cs] by (auto simp: is_ident_char_def is_alnum_def)
  then show ?thesis
    using assms lex_string_shorter [of cs line "[]"] lex_number_shorter [of c cs line p' line' t]
      dropWhile_shorter [of is_alpha cs] dropWhile_shorter [of "\<lambda>d. d \<noteq> CHR 0x0A" cs]
    unfolding lex_round_def Let_def
    by (simp split: if_split_asm sum.split_asm prod.split_asm)
qed

function lex_loop :: "string \<Rightarrow> nat \<Rightarrow> Token list \<Rightarrow> asm_error + Token list" where
  "lex_loop [] line out = Inr (out @ [simple_tok TOK_EOF line])"
| "lex_loop (c # cs) line out =
     (case lex_round c cs line of
        Inl e \<Rightarrow> Inl e
      | Inr (p', line', None) \<Rightarrow> lex_loop p' line' out
      | Inr (p', line', Some t) \<Rightarrow> lex_loop p' line' (out @ [t]))"
  by pat_completeness auto
termination
  by (relation "measure (\<lambda>(p, line, out). length p)")
    (auto dest!: lex_round_shorter)

declare lex_loop.simps(2) [simp del]

text \<open>The whole lexer; \<open>set_error\<close> cuts the message to the caller's 256-byte buffer.\<close>

definition lex :: "string \<Rightarrow> asm_error + Token list" where
  "lex source =
     (case lex_loop source 1 [] of
        Inl (AsmError msg line) \<Rightarrow> Inl (AsmError (snprintf 256 msg) line)
      | Inl AsmUB \<Rightarrow> Inl AsmUB
      | Inr toks \<Rightarrow> Inr toks)"

subsection \<open>Well-formed token lists\<close>

definition ident_ok :: "string \<Rightarrow> bool" where
  "ident_ok s \<longleftrightarrow> s \<noteq> [] \<and> (is_alpha (hd s) \<or> hd s = CHR ''_'') \<and> list_all is_ident_char s"

definition directive_ok :: "string \<Rightarrow> bool" where
  "directive_ok s \<longleftrightarrow> s \<noteq> [] \<and> list_all is_alpha s"

definition tok_wf :: "Token \<Rightarrow> bool" where
  "tok_wf t =
     (case tok_type t of
        TOK_IDENT \<Rightarrow> ident_ok (tok_text t) \<and> t = text_tok TOK_IDENT (tok_line t) (tok_text t)
      | TOK_DIRECTIVE \<Rightarrow> directive_ok (tok_text t) \<and> t = text_tok TOK_DIRECTIVE (tok_line t) (tok_text t)
      | TOK_NUMBER \<Rightarrow> \<bar>tok_num_value t\<bar> \<le> int64_max \<and> t = num_tok (tok_line t) (tok_num_value t)
      | TOK_STRING \<Rightarrow> t = str_tok (tok_line t) (tok_str_value t)
      | ty \<Rightarrow> t = simple_tok ty (tok_line t))"

fun toks_from :: "nat \<Rightarrow> Token list \<Rightarrow> bool" where
  "toks_from line [] = False"
| "toks_from line (t # ts) \<longleftrightarrow> tok_wf t \<and> tok_line t = line \<and>
     (if tok_type t = TOK_EOF then ts = []
      else toks_from (if tok_type t = TOK_NEWLINE then line + 1 else line) ts)"

lemma tok_fields [simp]:
  "tok_type (simple_tok ty l) = ty" "tok_line (simple_tok ty l) = l"
  "tok_type (text_tok ty l s) = ty" "tok_line (text_tok ty l s) = l" "tok_text (text_tok ty l s) = s"
  "tok_type (num_tok l v) = TOK_NUMBER" "tok_line (num_tok l v) = l" "tok_num_value (num_tok l v) = v"
  "tok_type (str_tok l b) = TOK_STRING" "tok_line (str_tok l b) = l" "tok_str_value (str_tok l b) = b"
  by (simp_all add: simple_tok_def text_tok_def num_tok_def str_tok_def)

lemma tok_wf_simps [simp]:
  "ty \<in> {TOK_EOF, TOK_NEWLINE, TOK_COMMA, TOK_COLON, TOK_LBRACKET, TOK_RBRACKET} \<Longrightarrow> tok_wf (simple_tok ty l)"
  "tok_wf (text_tok TOK_IDENT l s) = ident_ok s"
  "tok_wf (text_tok TOK_DIRECTIVE l s) = directive_ok s"
  "tok_wf (num_tok l v) \<longleftrightarrow> \<bar>v\<bar> \<le> int64_max"
  "tok_wf (str_tok l b)"
  by (auto simp: tok_wf_def)

lemma lex_hex_range: "lex_hex_digits p v = Inr (w, rest) \<Longrightarrow> 0 \<le> v \<Longrightarrow> v \<le> int64_max \<Longrightarrow> 0 \<le> w \<and> w \<le> int64_max"
  by (induction p v rule: lex_hex_digits.induct) (auto simp: Let_def split: if_splits)

lemma lex_dec_range: "lex_dec_digits p v = Inr (w, rest) \<Longrightarrow> 0 \<le> v \<Longrightarrow> v \<le> int64_max \<Longrightarrow> 0 \<le> w \<and> w \<le> int64_max"
  by (induction p v rule: lex_dec_digits.induct) (auto simp: Let_def split: if_splits)

lemma lex_magnitude_range:
  assumes "lex_magnitude p line = Inr (w, rest)" 
  shows "\<bar>w\<bar> \<le> int64_max"
proof -
  have "0 \<le> w \<and> w \<le> int64_max"
    using assms lex_hex_range [of _ 0 w rest] lex_dec_range [of _ 0 w rest]
    by (auto simp: lex_magnitude_def int64_max_def simp del: lex_hex_digits.simps lex_dec_digits.simps
        split: list.splits if_splits)
  then show ?thesis by simp
qed

lemma takeWhile_ident_ok: "is_alpha c \<or> c = CHR ''_'' \<Longrightarrow> ident_ok (takeWhile is_ident_char (c # cs))"
  by (auto simp: ident_ok_def is_ident_char_def is_alnum_def list_all_iff dest: set_takeWhileD)

lemma takeWhile_directive_ok: "takeWhile is_alpha cs \<noteq> [] \<Longrightarrow> directive_ok (takeWhile is_alpha cs)"
  by (auto simp: directive_ok_def list_all_iff dest: set_takeWhileD)

lemma lex_number_wf:
  "lex_number c cs line = Inr (p', line', t) \<Longrightarrow>
     line' = line \<and> (\<exists>v. t = Some (num_tok line v) \<and> \<bar>v\<bar> \<le> int64_max)"
  by (cases "c = CHR ''-''"; cases cs)
    (auto simp: lex_number_def dest: lex_magnitude_range intro!: exI split: if_splits sum.splits)

lemma lex_round_wf:
  assumes "lex_round c cs line = Inr (p', line', t)"
  shows "case t of None \<Rightarrow> line' = line
    | Some u \<Rightarrow> tok_wf u \<and> tok_line u = line \<and> tok_type u \<noteq> TOK_EOF \<and>
        line' = (if tok_type u = TOK_NEWLINE then line + 1 else line)"
  using assms lex_number_wf [of c cs line p' line' t] takeWhile_directive_ok [of cs] takeWhile_ident_ok [of c cs]
  unfolding lex_round_def Let_def
  by (simp del: takeWhile.simps dropWhile.simps split: if_split_asm sum.split_asm prod.split_asm;
      elim conjE exE; hypsubst; simp del: takeWhile.simps)

lemma lex_loop_wf:
  "lex_loop p line out = Inr toks \<Longrightarrow> \<exists>ts. toks = out @ ts \<and> toks_from line ts"
proof (induction p line out rule: lex_loop.induct)
  case (1 line out)
  then show ?case by (intro exI [of _ "[simple_tok TOK_EOF line]"]) simp
next
  case (2 c cs line out)
  from "2.prems" obtain p' line' t where r: "lex_round c cs line = Inr (p', line', t)"
    by (auto simp: lex_loop.simps(2) split: sum.splits)
  note wf = lex_round_wf [OF r]
  show ?case
  proof (cases t)
    case None
    with "2.IH"(1) [OF r] "2.prems" r wf show ?thesis by (simp add: lex_loop.simps(2))
  next
    case (Some u)
    with "2.IH"(2) [OF r refl refl Some] "2.prems" r obtain ts where
      "toks = (out @ [u]) @ ts" "toks_from line' ts" by (auto simp: lex_loop.simps(2))
    with wf Some show ?thesis by (intro exI [of _ "u # ts"]) auto
  qed
qed

subsection \<open>Printing tokens\<close>

definition hex_escape :: "u8 \<Rightarrow> string" where
  "hex_escape b = [CHR 0x5C, CHR ''x'', digit_char (unat b div 16), digit_char (unat b mod 16)]"

definition print_tok :: "Token \<Rightarrow> string" where
  "print_tok t =
     (case tok_type t of
        TOK_EOF \<Rightarrow> []
      | TOK_NEWLINE \<Rightarrow> [CHR 0x0A]
      | TOK_IDENT \<Rightarrow> tok_text t
      | TOK_DIRECTIVE \<Rightarrow> CHR ''.'' # tok_text t
      | TOK_NUMBER \<Rightarrow> fmt_d (tok_num_value t)
      | TOK_STRING \<Rightarrow> CHR 0x22 # concat (map hex_escape (tok_str_value t)) @ [CHR 0x22]
      | TOK_COMMA \<Rightarrow> '',''
      | TOK_COLON \<Rightarrow> '':''
      | TOK_LBRACKET \<Rightarrow> ''[''
      | TOK_RBRACKET \<Rightarrow> '']'')"

definition print_toks :: "Token list \<Rightarrow> string" where
  "print_toks ts = concat (map (\<lambda>t. print_tok t @ '' '') ts)"

lemma dec_value_ge: "n \<le> dec_value n ds"
proof (induction ds arbitrary: n)
  case (Cons d ds)
  have "n \<le> n * 10 + digit_val d" by simp
  also have "\<dots> \<le> dec_value (n * 10 + digit_val d) ds" by (rule Cons.IH)
  finally show ?case by simp
qed simp

lemma lex_dec_digits_run:
  assumes "list_all is_digit ds" "rest = [] \<or> \<not> is_digit (hd rest)" "int (dec_value n ds) \<le> int64_max"
  shows "lex_dec_digits (ds @ rest) (int n) = Inr (int (dec_value n ds), rest)"
  using assms
proof (induction ds arbitrary: n)
  case Nil
  then show ?case by (cases rest) auto
next
  case (Cons d ds)
  have "int (n * 10 + digit_val d) \<le> int (dec_value (n * 10 + digit_val d) ds)"
    using dec_value_ge by (simp only: zle_int)
  with Cons.prems have "int (n * 10 + digit_val d) \<le> int64_max" by simp
  with Cons.IH [of "n * 10 + digit_val d"] Cons.prems show ?case by (simp add: Let_def mult.commute)
qed

lemma show_base_cons: "\<exists>d ds. show_base 10 n = d # ds \<and> is_digit d \<and> list_all is_digit ds"
  using show_base_digits [of n] show_base_not_nil [of 10 n] by (cases "show_base 10 n") auto

lemma digit_not_x: "is_digit c \<Longrightarrow> c \<noteq> CHR ''x'' \<and> c \<noteq> CHR ''X''"
  by (auto simp: is_digit_def)

lemma lex_magnitude_show:
  assumes "int n \<le> int64_max"
  shows "lex_magnitude (show_base 10 n @ CHR '' '' # rest) line = Inr (int n, CHR '' '' # rest)"
proof -
  have "lex_dec_digits (show_base 10 n @ CHR '' '' # rest) 0 = Inr (int n, CHR '' '' # rest)"
    using lex_dec_digits_run [OF show_base_digits, of "CHR '' '' # rest" 0 n] assms
    by (simp add: dec_value_show_base is_digit_def)
  moreover obtain d ds where "show_base 10 n = d # ds" "is_digit d" "list_all is_digit ds"
    using show_base_cons by blast
  ultimately show ?thesis
    using digit_not_x by (cases ds) (auto simp: lex_magnitude_def simp del: lex_dec_digits.simps)
qed

lemma lex_number_show:
  assumes "\<bar>v\<bar> \<le> int64_max"
  shows "\<exists>c cs. fmt_d v @ CHR '' '' # rest = c # cs \<and> (c = CHR ''-'' \<or> is_digit c) \<and>
    lex_number c cs line = Inr (CHR '' '' # rest, line, Some (num_tok line v))"
proof -
  have m: "lex_magnitude (show_base 10 (nat \<bar>v\<bar>) @ CHR '' '' # rest) line = Inr (\<bar>v\<bar>, CHR '' '' # rest)"
    using lex_magnitude_show [of "nat \<bar>v\<bar>"] assms by simp
  obtain d ds where d: "show_base 10 (nat \<bar>v\<bar>) = d # ds" "is_digit d" using show_base_cons by blast
  have "d \<noteq> CHR ''-''" using d(2) by (auto simp: is_digit_def)
  with m d show ?thesis by (cases "v < 0") (auto simp: fmt_d_def lex_number_def)
qed

lemma hex_digit_facts:
  assumes "d < 16"
  shows "is_xdigit (digit_char d)" "hex_val (digit_char d) = d"
proof -
  have "d < 10 \<or> d \<in> {10, 11, 12, 13, 14, 15}" using assms by auto
  then show "is_xdigit (digit_char d)" "hex_val (digit_char d) = d"
    by (auto simp: digit_char_def hex_val_def ctype_defs Let_def)
qed

lemma lex_escape_hex: "lex_escape (tl (hex_escape b) @ rest) = Inr (b, rest)"
proof -
  have "unat b div 16 < 16" using unat_lt_256 [of b] by simp
  moreover have "of_nat (unat b div 16 * 16 + unat b mod 16) = b" by (simp only: div_mult_mod_eq) simp
  ultimately show ?thesis by (simp add: lex_escape_def hex_escape_def hex_digit_facts)
qed

lemma lex_string_print:
  "lex_string (concat (map hex_escape bs) @ CHR 0x22 # rest) line buf = Inr (buf @ bs, rest)"
proof (induction bs arbitrary: buf)
  case (Cons b bs)
  have e: "concat (map hex_escape (b # bs)) @ CHR 0x22 # rest =
      CHR 0x5C # tl (hex_escape b) @ concat (map hex_escape bs) @ CHR 0x22 # rest" by (simp add: hex_escape_def)
  show ?case unfolding e
    using Cons.IH by (simp add: lex_string.simps [of "CHR 0x5C # p" for p] lex_escape_hex)
qed (simp add: lex_string.simps)

lemma ident_run:
  assumes "ident_ok s"
  shows "takeWhile is_ident_char (s @ CHR '' '' # rest) = s" "dropWhile is_ident_char (s @ CHR '' '' # rest) = CHR '' '' # rest"
  using takeWhile_digits [of is_ident_char s "CHR '' '' # rest"] assms
  by (simp_all add: ident_ok_def is_ident_char_def ctype_defs)

lemma directive_run:
  assumes "directive_ok s"
  shows "takeWhile is_alpha (s @ CHR '' '' # rest) = s" "dropWhile is_alpha (s @ CHR '' '' # rest) = CHR '' '' # rest"
  using takeWhile_digits [of is_alpha s "CHR '' '' # rest"] assms
  by (simp_all add: directive_ok_def ctype_defs)

lemma alpha_not_punct:
  "is_alpha c \<or> c = CHR ''_'' \<Longrightarrow> c \<notin> {CHR '' '', CHR 0x09, CHR 0x0D, CHR '';'', CHR 0x0A, CHR '','', CHR '':'',
     CHR ''['', CHR '']'', CHR ''.'', CHR 0x22, CHR ''-''} \<and> \<not> is_digit c"
  by (auto simp: ctype_defs)

lemma digit_not_punct:
  "c = CHR ''-'' \<or> is_digit c \<Longrightarrow> c \<notin> {CHR '' '', CHR 0x09, CHR 0x0D, CHR '';'', CHR 0x0A, CHR '','', CHR '':'',
     CHR ''['', CHR '']'', CHR ''.'', CHR 0x22}"
  by (auto simp: ctype_defs)

lemma lex_round_print:
  assumes "tok_wf t" "tok_type t \<noteq> TOK_EOF"
  shows "\<exists>c cs. print_tok t @ CHR '' '' # rest = c # cs \<and>
    lex_round c cs (tok_line t) = Inr (CHR '' '' # rest,
      if tok_type t = TOK_NEWLINE then tok_line t + 1 else tok_line t, Some t)"
proof (cases "tok_type t")
  case TOK_IDENT
  then have t: "ident_ok (tok_text t)" "text_tok TOK_IDENT (tok_line t) (tok_text t) = t"
    using assms(1) by (auto simp: tok_wf_def)
  then obtain c cs where s: "tok_text t = c # cs" "is_alpha c \<or> c = CHR ''_''"
    by (cases "tok_text t") (auto simp: ident_ok_def)
  with ident_run [OF t(1), of rest] t(2) TOK_IDENT alpha_not_punct [OF s(2)] show ?thesis
    by (auto simp: print_tok_def lex_round_def)
next
  case TOK_DIRECTIVE
  then have t: "directive_ok (tok_text t)" "text_tok TOK_DIRECTIVE (tok_line t) (tok_text t) = t"
    using assms(1) by (auto simp: tok_wf_def)
  then have "tok_text t \<noteq> []" by (simp add: directive_ok_def)
  with TOK_DIRECTIVE t(2) directive_run [OF t(1), of rest] show ?thesis
    by (simp add: print_tok_def lex_round_def Let_def)
next
  case TOK_NUMBER
  then have t: "\<bar>tok_num_value t\<bar> \<le> int64_max" "num_tok (tok_line t) (tok_num_value t) = t"
    using assms(1) by (auto simp: tok_wf_def)
  from lex_number_show [OF t(1), of rest "tok_line t"] obtain c cs where
    c: "fmt_d (tok_num_value t) @ CHR '' '' # rest = c # cs" "c = CHR ''-'' \<or> is_digit c"
    "lex_number c cs (tok_line t) = Inr (CHR '' '' # rest, tok_line t, Some t)" using t(2) by auto
  have "lex_round c cs (tok_line t) = lex_number c cs (tok_line t)"
    using digit_not_punct [OF c(2)] c(2) by (simp add: lex_round_def)
  with c TOK_NUMBER show ?thesis by (simp add: print_tok_def)
next
  case TOK_STRING
  then have "str_tok (tok_line t) (tok_str_value t) = t" using assms(1) by (auto simp: tok_wf_def)
  with TOK_STRING show ?thesis by (simp add: print_tok_def lex_round_def lex_string_print)
qed (use assms in \<open>auto simp: print_tok_def lex_round_def tok_wf_def\<close>)

lemma lex_loop_print:
  "toks_from line ts \<Longrightarrow> lex_loop (print_toks ts) line out = Inr (out @ ts)"
proof (induction ts arbitrary: line out)
  case (Cons t ts)
  have space: "lex_loop (CHR '' '' # p) l o' = lex_loop p l o'" for p l o'
    by (simp add: lex_loop.simps(2) lex_round_def)
  show ?case
  proof (cases "tok_type t = TOK_EOF")
    case True
    with Cons.prems have "ts = []" "t = simple_tok TOK_EOF line" by (auto simp: tok_wf_def)
    then show ?thesis by (simp add: print_toks_def print_tok_def space)
  next
    case False
    with Cons.prems have t: "tok_wf t" "tok_line t = line"
      "toks_from (if tok_type t = TOK_NEWLINE then line + 1 else line) ts" by auto
    have p: "print_toks (t # ts) = print_tok t @ CHR '' '' # print_toks ts" by (simp add: print_toks_def)
    from lex_round_print [OF t(1) False, of "print_toks ts"] t(2) obtain c cs where
      "print_toks (t # ts) = c # cs" "lex_round c cs line = Inr (CHR '' '' # print_toks ts,
        if tok_type t = TOK_NEWLINE then line + 1 else line, Some t)" by (auto simp: p)
    with Cons.IH [OF t(3), of "out @ [t]"] show ?thesis by (simp add: lex_loop.simps(2) [of c] space)
  qed
qed simp

lemma lex_ok_iff: "lex s = Inr toks \<longleftrightarrow> lex_loop s 1 [] = Inr toks"
  by (auto simp: lex_def split: sum.splits asm_error.splits)

text \<open>
  C10: the lexer is the inverse of printing. Whatever source it accepts, the tokens are well
  formed (identifiers, directive names and numbers within int64_t, line numbers counting the
  newlines from 1, exactly one TOK_EOF, at the end), and printing them with single spaces,
  strings as hexadecimal escapes, gives a source that lexes to the same tokens again.
\<close>

theorem lex_print_lex:
  assumes "lex source = Inr toks"
  shows "toks_from 1 toks \<and> lex (print_toks toks) = Inr toks"
proof -
  have "toks_from 1 toks" using lex_loop_wf [of source 1 "[]"] assms by (auto simp: lex_ok_iff)
  then show ?thesis using lex_loop_print [of 1 toks "[]"] by (simp add: lex_ok_iff)
qed

theorem lex_print_lex_witness:
  "lex ''J: -5;'' = Inr [text_tok TOK_IDENT 1 ''J'', simple_tok TOK_COLON 1, num_tok 1 (-5), simple_tok TOK_EOF 1] \<and>
   lex ''J : -5  '' = lex ''J: -5;''"
proof -
  have l: "lex ''J: -5;'' = Inr [text_tok TOK_IDENT 1 ''J'', simple_tok TOK_COLON 1, num_tok 1 (-5), simple_tok TOK_EOF 1]"
    by code_simp
  have "print_toks [text_tok TOK_IDENT 1 ''J'', simple_tok TOK_COLON 1, num_tok 1 (-5), simple_tok TOK_EOF 1] = ''J : -5  ''"
    by code_simp
  with lex_print_lex [OF l] l show ?thesis by simp
qed

end
