(* ===== verification/Bvm_Symtab.thy ===== *)
theory Bvm_Symtab
  imports Bvm_Prelude
begin

text \<open>
  The symbol table of the assembler (src/assembler/symtab.h, symtab.c): a growing array of
  names and addresses searched from the front; growing it succeeds.
\<close>

record Symbol =
  sym_name :: string
  sym_address :: u16

record SymbolTable =
  symtab_symbols :: "Symbol list"

definition symtab_init :: SymbolTable where
  "symtab_init = \<lparr>symtab_symbols = []\<rparr>"

fun symtab_search :: "Symbol list \<Rightarrow> string \<Rightarrow> u16 option" where
  "symtab_search [] name = None"
| "symtab_search (s # ss) name = (if sym_name s = name then Some (sym_address s) else symtab_search ss name)"

definition symtab_lookup :: "SymbolTable \<Rightarrow> string \<Rightarrow> u16 option" where
  "symtab_lookup table name = symtab_search (symtab_symbols table) name"

definition symtab_define :: "SymbolTable \<Rightarrow> string \<Rightarrow> u16 \<Rightarrow> bool \<times> SymbolTable" where
  "symtab_define table name address =
     (case symtab_lookup table name of
        Some existing \<Rightarrow> (False, table)
      | None \<Rightarrow> (True, table\<lparr>symtab_symbols := symtab_symbols table @ [\<lparr>sym_name = name, sym_address = address\<rparr>]\<rparr>))"

subsection \<open>The symbol table interface\<close>

text \<open>What the two passes rely on: a name is defined at most once and keeps its address.\<close>

locale symbol_table =
  fixes empty :: 't
    and lookup :: "'t \<Rightarrow> string \<Rightarrow> u16 option"
    and def_sym :: "'t \<Rightarrow> string \<Rightarrow> u16 \<Rightarrow> bool \<times> 't"
  assumes lookup_empty: "lookup empty n = None"
    and define_fresh: "lookup t n = None \<Longrightarrow>
      \<exists>t'. def_sym t n a = (True, t') \<and> (\<forall>m. lookup t' m = (if m = n then Some a else lookup t m))"
    and define_dup: "lookup t n = Some b \<Longrightarrow> def_sym t n a = (False, t)"
begin

lemma define_true:
  assumes "def_sym t n a = (True, t')"
  shows "lookup t n = None" "lookup t' m = (if m = n then Some a else lookup t m)"
proof -
  show n: "lookup t n = None" using assms define_dup by (cases "lookup t n") auto
  from define_fresh [OF n, of a] assms show "lookup t' m = (if m = n then Some a else lookup t m)" by auto
qed

lemma define_false: "def_sym t n a = (False, t') \<longleftrightarrow> lookup t n \<noteq> None \<and> t' = t"
proof (cases "lookup t n")
  case None
  then show ?thesis using define_fresh [of t n a] by auto
next
  case (Some b)
  then show ?thesis using define_dup [of t n b a] by auto
qed

text \<open>An address, once looked up, is never changed by a later definition.\<close>

lemma define_keeps: "def_sym t n a = (ok, t') \<Longrightarrow> lookup t m = Some b \<Longrightarrow> lookup t' m = Some b"
proof (cases ok)
  case True
  then show "def_sym t n a = (ok, t') \<Longrightarrow> lookup t m = Some b \<Longrightarrow> ?thesis" using define_true by auto
next
  case False
  then show "def_sym t n a = (ok, t') \<Longrightarrow> lookup t m = Some b \<Longrightarrow> ?thesis" using define_false by auto
qed

end

lemma symtab_search_append:
  "symtab_search (ss @ [s]) name =
     (case symtab_search ss name of None \<Rightarrow> if sym_name s = name then Some (sym_address s) else None | Some a \<Rightarrow> Some a)"
  by (induction ss) auto

interpretation symtab: symbol_table symtab_init symtab_lookup symtab_define
  by unfold_locales (auto simp: symtab_init_def symtab_lookup_def symtab_define_def symtab_search_append
      split: option.splits)

end
