(* ===== verification/Bvm_Parser.thy ===== *)
theory Bvm_Parser
  imports Bvm_Instruction Bvm_Lexer Bvm_Symtab
begin

text \<open>
  The two passes of the assembler (src/assembler/parser.h, parser.c). The parser position is
  the list of tokens from \<open>ps->pos\<close> on. \<open>fail\<close> records the first error and every caller
  returns at once, so an operation that fails returns \<^const>\<open>Inl\<close> with the message and the
  line. The statement list is appended to; growing it succeeds.
\<close>

unbundle bit_operations_syntax

subsection \<open>Statement representation\<close>

datatype OperandKind =
    OPKIND_NONE | OPKIND_REG | OPKIND_REG_INDIRECT | OPKIND_NUMBER | OPKIND_MEM_NUMBER
  | OPKIND_LABEL | OPKIND_MEM_LABEL

record ParsedOperand =
  po_kind :: OperandKind
  po_reg_index :: int
  po_number :: int
  po_label :: string
  po_line :: nat

datatype StmtKind =
    STMT_LABEL | STMT_INSTRUCTION | STMT_ORG | STMT_DATA_SECTION | STMT_STRING | STMT_WORD | STMT_BYTE

record Statement =
  st_kind :: StmtKind
  st_line :: nat
  st_in_data :: bool
  st_address :: u16
  st_encoded_size :: int
  st_label_name :: string
  st_opcode :: Opcode
  st_operand_count :: int
  st_op1 :: ParsedOperand
  st_op2 :: ParsedOperand
  st_op1_mode :: AddrMode
  st_op2_mode :: AddrMode
  st_string_bytes :: "u8 list"
  st_word_operand :: ParsedOperand
  st_byte_operand :: ParsedOperand

text \<open>The zero-initialised structures \<open>ParsedOperand op = {0}\<close> and \<open>Statement st = {0}\<close>.\<close>

definition operand_zero :: ParsedOperand where
  "operand_zero = \<lparr>po_kind = OPKIND_NONE, po_reg_index = 0, po_number = 0, po_label = [], po_line = 0\<rparr>"

definition statement_zero :: Statement where
  "statement_zero = \<lparr>st_kind = STMT_LABEL, st_line = 0, st_in_data = False, st_address = 0,
     st_encoded_size = 0, st_label_name = [], st_opcode = OP_NOP, st_operand_count = 0,
     st_op1 = operand_zero, st_op2 = operand_zero, st_op1_mode = MODE_NONE, st_op2_mode = MODE_NONE,
     st_string_bytes = [], st_word_operand = operand_zero, st_byte_operand = operand_zero\<rparr>"

subsection \<open>Mnemonic, register and system call tables\<close>

definition MNEMONICS :: "(string \<times> Opcode) list" where
  "MNEMONICS =
     [(''NOP'', OP_NOP), (''MOV'', OP_MOV), (''ADD'', OP_ADD), (''SUB'', OP_SUB), (''MUL'', OP_MUL),
      (''DIV'', OP_DIV), (''MOD'', OP_MOD), (''AND'', OP_AND), (''OR'', OP_OR), (''XOR'', OP_XOR),
      (''NOT'', OP_NOT), (''SHL'', OP_SHL), (''SHR'', OP_SHR), (''LOAD'', OP_LOAD), (''STORE'', OP_STORE),
      (''PUSH'', OP_PUSH), (''POP'', OP_POP), (''CMP'', OP_CMP), (''JMP'', OP_JMP), (''JZ'', OP_JZ),
      (''JNZ'', OP_JNZ), (''JG'', OP_JG), (''JGE'', OP_JGE), (''JL'', OP_JL), (''JLE'', OP_JLE),
      (''JB'', OP_JB), (''JAE'', OP_JAE), (''JA'', OP_JA), (''JBE'', OP_JBE), (''CALL'', OP_CALL),
      (''RET'', OP_RET), (''SYS'', OP_SYS), (''HALT'', OP_HALT)]"

definition SYSCALLS :: "(string \<times> int) list" where
  "SYSCALLS = [(''PRINT_INT'', 1), (''PRINT_CHAR'', 2), (''READ_INT'', 3), (''EXIT'', 4)]"

fun ident_equals :: "string \<Rightarrow> string \<Rightarrow> bool" where
  "ident_equals [] [] = True"
| "ident_equals [] (k # ks) = False"
| "ident_equals (i # is) [] = False"
| "ident_equals (i # is) (k # ks) = (if to_lower i \<noteq> to_lower k then False else ident_equals is ks)"

fun lookup_ident :: "(string \<times> 'a) list \<Rightarrow> string \<Rightarrow> 'a option" where
  "lookup_ident [] ident = None"
| "lookup_ident ((name, v) # es) ident = (if ident_equals ident name then Some v else lookup_ident es ident)"

definition lookup_mnemonic :: "string \<Rightarrow> Opcode option" where
  "lookup_mnemonic ident = lookup_ident MNEMONICS ident"

definition try_syscall_name :: "string \<Rightarrow> int option" where
  "try_syscall_name ident = lookup_ident SYSCALLS ident"

text \<open>The digit loop of \<open>try_parse_register\<close>, which stops after a value above 999.\<close>

fun register_digits :: "string \<Rightarrow> int \<Rightarrow> int \<times> string" where
  "register_digits [] value = (value, [])"
| "register_digits (d # ds) value =
     (if is_digit d then
        let v = value * 10 + int (digit_val d)
        in if v > 999 then (v, ds) else register_digits ds v
      else (value, d # ds))"

definition try_parse_register :: "string \<Rightarrow> int option" where
  "try_parse_register ident =
     (case ident of
        [] \<Rightarrow> None
      | r # digits \<Rightarrow>
          if r \<noteq> CHR ''R'' \<and> r \<noteq> CHR ''r'' then None
          else if digits = [] \<or> \<not> is_digit (hd digits) then None
          else
            let (value, rest) = register_digits digits 0
            in if rest \<noteq> [] then None else Some value)"

subsection \<open>Parser state\<close>

definition cur :: "Token list \<Rightarrow> Token" where
  "cur ts = hd ts"

definition advance :: "Token list \<Rightarrow> Token list" where
  "advance ts = (if 1 < length ts then tl ts else ts)"

definition fail :: "nat \<Rightarrow> string \<Rightarrow> asm_error + 'a" where
  "fail line msg = Inl (AsmError (snprintf 256 msg) line)"

definition asm_bind :: "asm_error + 'a \<Rightarrow> ('a \<Rightarrow> asm_error + 'b) \<Rightarrow> asm_error + 'b" where
  "asm_bind m f = (case m of Inl e \<Rightarrow> Inl e | Inr x \<Rightarrow> f x)"

record SectionState =
  sec_in_data :: bool
  sec_data_seen :: bool
  sec_code_cursor :: u16
  sec_data_cursor :: u16
  sec_code_started :: bool
  sec_data_started :: bool
  sec_code_start_addr :: u16
  sec_data_start_addr :: u16

definition section_zero :: SectionState where
  "section_zero = \<lparr>sec_in_data = False, sec_data_seen = False, sec_code_cursor = 0, sec_data_cursor = 0,
     sec_code_started = False, sec_data_started = False, sec_code_start_addr = 0, sec_data_start_addr = 0\<rparr>"

definition active_cursor :: "SectionState \<Rightarrow> u16" where
  "active_cursor sec = (if sec_in_data sec then sec_data_cursor sec else sec_code_cursor sec)"

text \<open>A write through the pointer that \<open>active_cursor\<close> returns.\<close>

definition set_active_cursor :: "SectionState \<Rightarrow> u16 \<Rightarrow> SectionState" where
  "set_active_cursor sec a =
     (if sec_in_data sec then sec\<lparr>sec_data_cursor := a\<rparr> else sec\<lparr>sec_code_cursor := a\<rparr>)"

definition note_section_start :: "SectionState \<Rightarrow> bool \<Rightarrow> u16 \<Rightarrow> SectionState" where
  "note_section_start sec in_data address =
     (if in_data then
        (if \<not> sec_data_started sec then sec\<lparr>sec_data_started := True, sec_data_start_addr := address\<rparr> else sec)
      else
        (if \<not> sec_code_started sec then sec\<lparr>sec_code_started := True, sec_code_start_addr := address\<rparr> else sec))"

subsection \<open>Operands\<close>

definition parse_operand :: "Token list \<Rightarrow> Opcode \<Rightarrow> asm_error + (ParsedOperand \<times> Token list)" where
  "parse_operand ts context_opcode =
     (let op = operand_zero\<lparr>po_line := tok_line (cur ts)\<rparr>
      in if tok_type (cur ts) = TOK_LBRACKET then
           (let ts = advance ts
            in asm_bind
                 (if tok_type (cur ts) = TOK_IDENT then
                    (case try_parse_register (tok_text (cur ts)) of
                       Some reg_index \<Rightarrow>
                         Inr (op\<lparr>po_kind := OPKIND_REG_INDIRECT, po_reg_index := reg_index\<rparr>, advance ts)
                     | None \<Rightarrow> Inr (op\<lparr>po_kind := OPKIND_MEM_LABEL, po_label := tok_text (cur ts)\<rparr>, advance ts))
                  else if tok_type (cur ts) = TOK_NUMBER then
                    Inr (op\<lparr>po_kind := OPKIND_MEM_NUMBER, po_number := tok_num_value (cur ts)\<rparr>, advance ts)
                  else fail (tok_line (cur ts)) (''expected a register, number, or label inside '['' @ [CHR 0x27]))
                 (\<lambda>(op, ts).
                    if tok_type (cur ts) \<noteq> TOK_RBRACKET
                    then fail (tok_line (cur ts)) (''expected ']'' @ [CHR 0x27])
                    else Inr (op, advance ts)))
         else if tok_type (cur ts) = TOK_IDENT then
           (case try_parse_register (tok_text (cur ts)) of
              Some reg_index \<Rightarrow> Inr (op\<lparr>po_kind := OPKIND_REG, po_reg_index := reg_index\<rparr>, advance ts)
            | None \<Rightarrow>
                (case (if context_opcode = OP_SYS then try_syscall_name (tok_text (cur ts)) else None) of
                   Some code \<Rightarrow> Inr (op\<lparr>po_kind := OPKIND_NUMBER, po_number := code\<rparr>, advance ts)
                 | None \<Rightarrow> Inr (op\<lparr>po_kind := OPKIND_LABEL, po_label := tok_text (cur ts)\<rparr>, advance ts)))
         else if tok_type (cur ts) = TOK_NUMBER then
           Inr (op\<lparr>po_kind := OPKIND_NUMBER, po_number := tok_num_value (cur ts)\<rparr>, advance ts)
         else fail (tok_line (cur ts))
                (''expected an operand (register, number, label, or '[...]'' @ [CHR 0x27] @ '')''))"

text \<open>The message of a failed mode resolution is written into a 128-byte buffer.\<close>

definition resolve_operand_mode :: "ParsedOperand \<Rightarrow> u8 \<Rightarrow> string + AddrMode" where
  "resolve_operand_mode op legal_mask =
     (case po_kind op of
        OPKIND_REG \<Rightarrow>
          if legal_mask AND MODE_BIT MODE_REG = 0
          then Inl (snprintf 128 ''a register is not a legal operand here'')
          else if po_reg_index op < 0 \<or> po_reg_index op > 7
          then Inl (snprintf 128 (''register index R'' @ fmt_d (po_reg_index op)
                                  @ '' is out of range (must be R0-R7)''))
          else Inr MODE_REG
      | OPKIND_REG_INDIRECT \<Rightarrow>
          if legal_mask AND MODE_BIT MODE_REG_INDIRECT = 0
          then Inl (snprintf 128 ''a register-indirect [Rn] operand is not legal here'')
          else if po_reg_index op < 0 \<or> po_reg_index op > 7
          then Inl (snprintf 128 (''register index R'' @ fmt_d (po_reg_index op)
                                  @ '' is out of range (must be R0-R7)''))
          else Inr MODE_REG_INDIRECT
      | OPKIND_MEM_NUMBER \<Rightarrow>
          if legal_mask AND MODE_BIT MODE_MEM_DIRECT = 0
          then Inl (snprintf 128 ''a [address] operand is not legal here'') else Inr MODE_MEM_DIRECT
      | OPKIND_MEM_LABEL \<Rightarrow>
          if legal_mask AND MODE_BIT MODE_MEM_DIRECT = 0
          then Inl (snprintf 128 ''a [address] operand is not legal here'') else Inr MODE_MEM_DIRECT
      | OPKIND_NONE \<Rightarrow> Inl (snprintf 128 ''internal error: unresolved operand kind'')
      | _ \<Rightarrow>
          if legal_mask = MODE_BIT MODE_MEM_DIRECT OR MODE_BIT MODE_REG_INDIRECT
          then Inl (snprintf 128 ''this operand must be a memory reference in brackets, e.g. [addr] or [Rn]'')
          else if legal_mask AND MODE_BIT MODE_IMM16 \<noteq> 0 then Inr MODE_IMM16
          else if legal_mask AND MODE_BIT MODE_MEM_DIRECT \<noteq> 0 then Inr MODE_MEM_DIRECT
          else if legal_mask AND MODE_BIT MODE_IMM8 \<noteq> 0 then Inr MODE_IMM8
          else Inl (snprintf 128 ''no immediate or address form of this operand is legal here''))"

definition mode_byte_size :: "AddrMode \<Rightarrow> int" where
  "mode_byte_size mode =
     (case mode of
        MODE_NONE \<Rightarrow> 0 | MODE_REG \<Rightarrow> 1 | MODE_REG_INDIRECT \<Rightarrow> 1 | MODE_IMM8 \<Rightarrow> 1
      | MODE_IMM16 \<Rightarrow> 2 | MODE_MEM_DIRECT \<Rightarrow> 2 | _ \<Rightarrow> 0)"

subsection \<open>Pass 1: statements, addresses and sizes\<close>

text \<open>The statement list, the section state and the tokens left after a statement.\<close>

type_synonym pass1 = "Statement list \<times> SectionState \<times> Token list"

text \<open>The operands of an instruction up to the end of its line: their number and the two operands.\<close>

definition parse_operands :: "Token list \<Rightarrow> Opcode \<Rightarrow> asm_error + (int \<times> ParsedOperand \<times> ParsedOperand \<times> Token list)" where
  "parse_operands ts opcode =
     (if tok_type (cur ts) \<noteq> TOK_NEWLINE \<and> tok_type (cur ts) \<noteq> TOK_EOF then
        asm_bind (parse_operand ts opcode) (\<lambda>(op1, ts).
          if tok_type (cur ts) = TOK_COMMA then
            asm_bind (parse_operand (advance ts) opcode) (\<lambda>(op2, ts). Inr (2, op1, op2, ts))
          else Inr (1, op1, operand_zero, ts))
      else Inr (0, operand_zero, operand_zero, ts))"

text \<open>A mode for an operand that the opcode has; a failure is reported at the operand's line.\<close>

definition statement_mode :: "bool \<Rightarrow> ParsedOperand \<Rightarrow> u8 \<Rightarrow> asm_error + AddrMode" where
  "statement_mode expected op modes =
     (if expected then
        (case resolve_operand_mode op modes of
           Inl errbuf \<Rightarrow> fail (po_line op) errbuf
         | Inr mode \<Rightarrow> Inr mode)
      else Inr MODE_NONE)"

definition parse_instruction_statement ::
  "Statement list \<Rightarrow> SectionState \<Rightarrow> Token list \<Rightarrow> Opcode \<Rightarrow> nat \<Rightarrow> asm_error + pass1" where
  "parse_instruction_statement stmts sec ts opcode line =
     asm_bind (parse_operands ts opcode) (\<lambda>(count, op1, op2, ts).
       let (op1_modes, op2_modes) = (case instruction_opcode_modes opcode of Some ms \<Rightarrow> ms | None \<Rightarrow> (0, 0));
           modes_none = MODE_BIT MODE_NONE;
           expected_count = (if op1_modes = modes_none then 0 else if op2_modes = modes_none then 1 else 2 :: int)
       in if count \<noteq> expected_count
          then fail line (''expected '' @ fmt_d expected_count @ '' operand(s), got '' @ fmt_d count)
          else
            asm_bind (statement_mode (expected_count \<ge> 1) op1 op1_modes) (\<lambda>op1_mode.
            asm_bind (statement_mode (expected_count \<ge> 2) op2 op2_modes) (\<lambda>op2_mode.
              let address = active_cursor sec;
                  encoded_size = 2 + mode_byte_size op1_mode + mode_byte_size op2_mode;
                  st = statement_zero\<lparr>st_kind := STMT_INSTRUCTION, st_line := line, st_opcode := opcode,
                         st_operand_count := count, st_in_data := sec_in_data sec, st_op1 := op1,
                         st_op2 := op2, st_op1_mode := op1_mode, st_op2_mode := op2_mode,
                         st_address := address, st_encoded_size := encoded_size\<rparr>;
                  sec = note_section_start sec (sec_in_data sec) address;
                  sec = set_active_cursor sec (active_cursor sec + of_int encoded_size)
              in Inr (stmts @ [st], sec, ts))))"

text \<open>
  The directives. The common end of .string, .word and .byte: the statement gets the address
  of the active cursor, which then moves past it.
\<close>

definition place_statement :: "Statement list \<Rightarrow> SectionState \<Rightarrow> Token list \<Rightarrow> Statement \<Rightarrow> int \<Rightarrow> pass1" where
  "place_statement stmts sec ts st sz =
     (let address = active_cursor sec;
          st = st\<lparr>st_in_data := sec_in_data sec, st_address := address, st_encoded_size := sz\<rparr>;
          sec = note_section_start sec (sec_in_data sec) address;
          sec = set_active_cursor sec (active_cursor sec + of_int sz)
      in (stmts @ [st], sec, ts))"

definition parse_org :: "Statement list \<Rightarrow> SectionState \<Rightarrow> Token list \<Rightarrow> nat \<Rightarrow> asm_error + pass1" where
  "parse_org stmts sec ts line =
     (if tok_type (cur ts) \<noteq> TOK_NUMBER then fail line ''.org requires a numeric address''
      else
        let value = tok_num_value (cur ts);
            ts = advance ts
        in if value < 0 \<or> value > 0xFFFF
           then fail line (''.org value '' @ fmt_d value @ '' is out of range (must be 0-65535)'')
           else if (of_int value :: u16) < active_cursor sec
           then fail line (''.org would move the address counter backward (currently at 0x''
                  @ fmt_0X 4 (unat (active_cursor sec)) @ '', requested 0x'' @ fmt_0X 4 (nat value) @ '')'')
           else Inr (stmts @ [statement_zero\<lparr>st_kind := STMT_ORG, st_line := line\<rparr>],
                     set_active_cursor sec (of_int value), ts))"

definition parse_data :: "Statement list \<Rightarrow> SectionState \<Rightarrow> Token list \<Rightarrow> nat \<Rightarrow> asm_error + pass1" where
  "parse_data stmts sec ts line =
     (if sec_data_seen sec then fail line ''.data may only appear once''
      else Inr (stmts @ [statement_zero\<lparr>st_kind := STMT_DATA_SECTION, st_line := line\<rparr>],
                sec\<lparr>sec_data_seen := True, sec_in_data := True, sec_data_cursor := sec_code_cursor sec\<rparr>, ts))"

definition parse_string :: "Statement list \<Rightarrow> SectionState \<Rightarrow> Token list \<Rightarrow> nat \<Rightarrow> asm_error + pass1" where
  "parse_string stmts sec ts line =
     (if tok_type (cur ts) \<noteq> TOK_STRING then fail line ''.string requires a quoted string literal''
      else
        let bytes = tok_str_value (cur ts)
        in Inr (place_statement stmts sec (advance ts)
                  (statement_zero\<lparr>st_kind := STMT_STRING, st_line := line, st_string_bytes := bytes\<rparr>)
                  (int (length bytes) + 1)))"

definition parse_word :: "Statement list \<Rightarrow> SectionState \<Rightarrow> Token list \<Rightarrow> nat \<Rightarrow> asm_error + pass1" where
  "parse_word stmts sec ts line =
     asm_bind (parse_operand ts OP_NOP) (\<lambda>(operand, ts).
       if po_kind operand \<noteq> OPKIND_NUMBER \<and> po_kind operand \<noteq> OPKIND_LABEL
       then fail line ''.word requires a number or a label''
       else Inr (place_statement stmts sec ts
                   (statement_zero\<lparr>st_kind := STMT_WORD, st_line := line, st_word_operand := operand\<rparr>) 2))"

definition parse_byte :: "Statement list \<Rightarrow> SectionState \<Rightarrow> Token list \<Rightarrow> nat \<Rightarrow> asm_error + pass1" where
  "parse_byte stmts sec ts line =
     asm_bind (parse_operand ts OP_NOP) (\<lambda>(operand, ts).
       if po_kind operand \<noteq> OPKIND_NUMBER then fail line ''.byte requires a plain number (0-255)''
       else Inr (place_statement stmts sec ts
                   (statement_zero\<lparr>st_kind := STMT_BYTE, st_line := line, st_byte_operand := operand\<rparr>) 1))"

definition parse_directive_statement ::
  "Statement list \<Rightarrow> SectionState \<Rightarrow> Token list \<Rightarrow> string \<Rightarrow> nat \<Rightarrow> asm_error + pass1" where
  "parse_directive_statement stmts sec ts directive_name line =
     (let ts = advance ts
      in if ident_equals directive_name ''org'' then parse_org stmts sec ts line
         else if ident_equals directive_name ''data'' then parse_data stmts sec ts line
         else if ident_equals directive_name ''string'' then parse_string stmts sec ts line
         else if ident_equals directive_name ''word'' then parse_word stmts sec ts line
         else if ident_equals directive_name ''byte'' then parse_byte stmts sec ts line
         else fail line (''unknown directive '.'' @ directive_name @ [CHR 0x27]))"

text \<open>A label at the start of a line: \<^const>\<open>None\<close> when the line has none.\<close>

definition parse_label ::
  "Statement list \<Rightarrow> SymbolTable \<Rightarrow> SectionState \<Rightarrow> Token list \<Rightarrow>
   asm_error + (Statement list \<times> SymbolTable \<times> Token list) option" where
  "parse_label stmts symtab sec ts =
     (let name = tok_text (cur ts);
          name_line = tok_line (cur ts);
          ts' = advance ts
      in if tok_type (cur ts') = TOK_COLON then
           (let ts' = advance ts';
                addr = active_cursor sec;
                (ok, symtab') = symtab_define symtab name addr
            in if \<not> ok then fail name_line (''label '' @ [CHR 0x27] @ name @ [CHR 0x27] @ '' is already defined'')
               else Inr (Some (stmts @ [statement_zero\<lparr>st_kind := STMT_LABEL, st_line := name_line,
                                          st_label_name := name, st_address := addr\<rparr>], symtab', ts')))
         else Inr None)"

text \<open>The directive or instruction of a line.\<close>

definition parse_line_body ::
  "Statement list \<Rightarrow> SymbolTable \<Rightarrow> SectionState \<Rightarrow> Token list \<Rightarrow> asm_error + (SymbolTable \<times> pass1)" where
  "parse_line_body stmts symtab sec ts =
     (if tok_type (cur ts) = TOK_DIRECTIVE then
        asm_bind (parse_directive_statement stmts sec ts (tok_text (cur ts)) (tok_line (cur ts)))
          (\<lambda>r. Inr (symtab, r))
      else if tok_type (cur ts) = TOK_IDENT then
        (let line = tok_line (cur ts);
             mnemonic = tok_text (cur ts)
         in case lookup_mnemonic mnemonic of
              None \<Rightarrow> fail line (''unknown mnemonic '' @ [CHR 0x27] @ mnemonic @ [CHR 0x27])
            | Some opcode \<Rightarrow>
                asm_bind (parse_instruction_statement stmts sec (advance ts) opcode line) (\<lambda>r. Inr (symtab, r)))
      else fail (tok_line (cur ts)) ''expected a label, directive, or instruction'')"

definition parse_line ::
  "Statement list \<Rightarrow> SymbolTable \<Rightarrow> SectionState \<Rightarrow> Token list \<Rightarrow> asm_error + (SymbolTable \<times> pass1)" where
  "parse_line stmts symtab sec ts =
     (if tok_type (cur ts) = TOK_IDENT then
        asm_bind (parse_label stmts symtab sec ts) (\<lambda>r.
          case r of
            None \<Rightarrow> parse_line_body stmts symtab sec ts
          | Some (stmts, symtab, ts) \<Rightarrow>
              if tok_type (cur ts) = TOK_NEWLINE \<or> tok_type (cur ts) = TOK_EOF then Inr (symtab, stmts, sec, ts)
              else parse_line_body stmts symtab sec ts)
      else parse_line_body stmts symtab sec ts)"

text \<open>
  The loop over the lines. On a token list without TOK_EOF it may not end, which is
  \<^const>\<open>None\<close>; the lexer never produces such a list.
\<close>

partial_function (option) build_statements ::
  "Statement list \<Rightarrow> SymbolTable \<Rightarrow> SectionState \<Rightarrow> Token list \<Rightarrow>
   (asm_error + (Statement list \<times> SymbolTable \<times> SectionState)) option" where
  "build_statements stmts symtab sec ts =
     (if tok_type (cur ts) = TOK_EOF then
        Some (if \<not> sec_code_started sec
              then fail (tok_line (cur ts)) ''program contains no instructions or code-section data''
              else Inr (stmts, symtab, sec))
      else if tok_type (cur ts) = TOK_NEWLINE then build_statements stmts symtab sec (advance ts)
      else
        (case parse_line stmts symtab sec ts of
           Inl e \<Rightarrow> Some (Inl e)
         | Inr (symtab, stmts, sec, ts) \<Rightarrow>
             if tok_type (cur ts) = TOK_NEWLINE then build_statements stmts symtab sec (advance ts)
             else if tok_type (cur ts) \<noteq> TOK_EOF then Some (fail (tok_line (cur ts)) ''expected end of line'')
             else build_statements stmts symtab sec ts))"

declare build_statements.simps [code]

end
