(* ===== verification/Bvm_Assembler.thy ===== *)
theory Bvm_Assembler
  imports Bvm_Parser Bvm_Loader
begin

text \<open>
  Pass 2 of the assembler (src/assembler/parser.c) and the image writer
  (include/bytevm/assembler.h, src/assembler.c). The two 64 KB scratch buffers are functions
  on 16-bit addresses; a write at an index of 65536 or more is outside the C array and
  \<^const>\<open>AsmUB\<close>.
\<close>

unbundle bit_operations_syntax

type_synonym buffer = "u16 \<Rightarrow> u8"

definition buf_write :: "buffer \<Rightarrow> nat \<Rightarrow> u8 \<Rightarrow> asm_error + buffer" where
  "buf_write buf i b = (if i < 65536 then Inr (buf(of_nat i := b)) else Inl AsmUB)"

fun buf_copy :: "buffer \<Rightarrow> nat \<Rightarrow> u8 list \<Rightarrow> asm_error + buffer" where
  "buf_copy buf i [] = Inr buf"
| "buf_copy buf i (b # bs) = asm_bind (buf_write buf i b) (\<lambda>buf. buf_copy buf (i + 1) bs)"

definition buf_slice :: "buffer \<Rightarrow> u16 \<Rightarrow> u16 \<Rightarrow> asm_error + u8 list" where
  "buf_slice buf addr n =
     (if unat addr + unat n \<le> 65536 then Inr (map (\<lambda>i. buf (addr + of_nat i)) [0..<unat n]) else Inl AsmUB)"

subsection \<open>Pass 2: values and bytes\<close>

definition resolve_value :: "ParsedOperand \<Rightarrow> SymbolTable \<Rightarrow> string + int" where
  "resolve_value op symtab =
     (case po_kind op of
        OPKIND_REG \<Rightarrow> Inr (po_reg_index op)
      | OPKIND_REG_INDIRECT \<Rightarrow> Inr (po_reg_index op)
      | OPKIND_NUMBER \<Rightarrow> Inr (po_number op)
      | OPKIND_MEM_NUMBER \<Rightarrow> Inr (po_number op)
      | OPKIND_NONE \<Rightarrow> Inr 0
      | _ \<Rightarrow>
          (case symtab_lookup symtab (po_label op) of
             None \<Rightarrow> Inl (snprintf 128 (''undefined label '' @ [CHR 0x27] @ po_label op @ [CHR 0x27]))
           | Some addr \<Rightarrow> Inr (uint addr)))"

definition range_check :: "AddrMode \<Rightarrow> int \<Rightarrow> string option" where
  "range_check mode value =
     (if mode = MODE_IMM16 \<or> mode = MODE_MEM_DIRECT then
        (if value < -32768 \<or> value > 65535
         then Some (snprintf 128 (''immediate value '' @ fmt_d value @ '' is out of range (-32768 to 65535)''))
         else None)
      else if mode = MODE_IMM8 then
        (if value < 0 \<or> value > 255
         then Some (snprintf 128 (''immediate value '' @ fmt_d value @ '' is out of range (0 to 255)''))
         else None)
      else None)"

definition emit_operand_bytes :: "buffer \<Rightarrow> u16 \<Rightarrow> AddrMode \<Rightarrow> int \<Rightarrow> asm_error + (buffer \<times> u16)" where
  "emit_operand_bytes target addr mode value =
     (if mode \<in> {MODE_REG, MODE_REG_INDIRECT, MODE_IMM8} then
        asm_bind (buf_write target (unat addr) (of_int value)) (\<lambda>target. Inr (target, addr + 1))
      else if mode \<in> {MODE_IMM16, MODE_MEM_DIRECT} then
        (let v16 = (of_int value :: u16)
         in asm_bind (buf_write target (unat addr) (ucast (v16 AND 0xFF))) (\<lambda>target.
            asm_bind (buf_write target (unat addr + 1) (ucast (drop_bit 8 v16))) (\<lambda>target.
              Inr (target, addr + 2))))
      else Inr (target, addr))"

text \<open>The value of an operand that the statement has, checked for its mode.\<close>

definition operand_value :: "bool \<Rightarrow> ParsedOperand \<Rightarrow> AddrMode \<Rightarrow> SymbolTable \<Rightarrow> asm_error + int" where
  "operand_value present op mode symtab =
     (if present then
        (case resolve_value op symtab of
           Inl errbuf \<Rightarrow> fail (po_line op) errbuf
         | Inr v \<Rightarrow> (case range_check mode v of Some errbuf \<Rightarrow> fail (po_line op) errbuf | None \<Rightarrow> Inr v))
      else Inr 0)"

definition emit_instruction :: "Statement \<Rightarrow> SymbolTable \<Rightarrow> buffer \<Rightarrow> asm_error + buffer" where
  "emit_instruction st symtab target =
     asm_bind (operand_value (st_operand_count st \<ge> 1) (st_op1 st) (st_op1_mode st) symtab) (\<lambda>v1.
     asm_bind (operand_value (st_operand_count st \<ge> 2) (st_op2 st) (st_op2_mode st) symtab) (\<lambda>v2.
       let addr = st_address st
       in asm_bind (buf_write target (unat addr) (opcode_code (st_opcode st))) (\<lambda>target.
          asm_bind (buf_write target (unat addr + 1)
                      (push_bit 4 (mode_val (st_op1_mode st)) OR mode_val (st_op2_mode st))) (\<lambda>target.
          asm_bind (emit_operand_bytes target (addr + 2) (st_op1_mode st) v1) (\<lambda>(target, addr).
          asm_bind (emit_operand_bytes target addr (st_op2_mode st) v2) (\<lambda>(target, addr). Inr target))))))"

text \<open>One statement into the buffer it targets.\<close>

definition emit_bytes :: "Statement \<Rightarrow> SymbolTable \<Rightarrow> buffer \<Rightarrow> asm_error + buffer" where
  "emit_bytes st symtab target =
     (case st_kind st of
        STMT_LABEL \<Rightarrow> Inr target
      | STMT_ORG \<Rightarrow> Inr target
      | STMT_DATA_SECTION \<Rightarrow> Inr target
      | STMT_STRING \<Rightarrow>
          asm_bind (buf_copy target (unat (st_address st)) (st_string_bytes st)) (\<lambda>target.
            buf_write target (unat (st_address st) + length (st_string_bytes st)) 0)
      | STMT_WORD \<Rightarrow>
          (case resolve_value (st_word_operand st) symtab of
             Inl errbuf \<Rightarrow> fail (st_line st) errbuf
           | Inr value \<Rightarrow>
               let v16 = (of_int value :: u16)
               in asm_bind (buf_write target (unat (st_address st)) (ucast (v16 AND 0xFF))) (\<lambda>target.
                    buf_write target (unat (st_address st) + 1) (ucast (drop_bit 8 v16))))
      | STMT_BYTE \<Rightarrow>
          (let value = po_number (st_byte_operand st)
           in if value < 0 \<or> value > 255
              then fail (st_line st) (''.byte value '' @ fmt_d value @ '' is out of range (0-255)'')
              else buf_write target (unat (st_address st)) (of_int value))
      | STMT_INSTRUCTION \<Rightarrow> emit_instruction st symtab target)"

record ParseResult =
  pr_code :: buffer
  pr_code_addr :: u16
  pr_code_size :: u16
  pr_data :: buffer
  pr_data_addr :: u16
  pr_data_size :: u16
  pr_entry_point :: u16

definition parse_result_zero :: ParseResult where
  "parse_result_zero = \<lparr>pr_code = (\<lambda>_. 0), pr_code_addr = 0, pr_code_size = 0, pr_data = (\<lambda>_. 0),
     pr_data_addr = 0, pr_data_size = 0, pr_entry_point = 0\<rparr>"

definition emit_statement :: "Statement \<Rightarrow> SymbolTable \<Rightarrow> ParseResult \<Rightarrow> asm_error + ParseResult" where
  "emit_statement st symtab out =
     (if st_in_data st
      then asm_bind (emit_bytes st symtab (pr_data out)) (\<lambda>target. Inr (out\<lparr>pr_data := target\<rparr>))
      else asm_bind (emit_bytes st symtab (pr_code out)) (\<lambda>target. Inr (out\<lparr>pr_code := target\<rparr>)))"

fun emit_statements :: "Statement list \<Rightarrow> SymbolTable \<Rightarrow> ParseResult \<Rightarrow> asm_error + ParseResult" where
  "emit_statements [] symtab out = Inr out"
| "emit_statements (st # sts) symtab out =
     asm_bind (emit_statement st symtab out) (\<lambda>out. emit_statements sts symtab out)"

definition assemble_tokens :: "Token list \<Rightarrow> (asm_error + ParseResult) option" where
  "assemble_tokens tokens =
     map_option (\<lambda>r.
       asm_bind r (\<lambda>(stmts, symtab, sec).
       asm_bind (emit_statements stmts symtab parse_result_zero) (\<lambda>out.
         Inr (out\<lparr>pr_code_addr := sec_code_start_addr sec,
                  pr_code_size := sec_code_cursor sec - sec_code_start_addr sec,
                  pr_data_addr := sec_data_start_addr sec,
                  pr_data_size := (if sec_data_started sec then sec_data_cursor sec - sec_data_start_addr sec else 0),
                  pr_entry_point := sec_code_start_addr sec\<rparr>))))
     (build_statements [] symtab_init section_zero tokens)"

subsection \<open>The image\<close>

definition write_u16_le :: "u16 \<Rightarrow> u8 list" where
  "write_u16_le value = [ucast (value AND 0xFF), ucast (drop_bit 8 value)]"

definition asm_message :: "asm_error \<Rightarrow> asm_error" where
  "asm_message e =
     (case e of
        AsmUB \<Rightarrow> AsmUB
      | AsmError msg line \<Rightarrow> AsmError (snprintf 256 (''line '' @ fmt_d (int line) @ '': '' @ take 200 msg)) line)"

definition write_image :: "ParseResult \<Rightarrow> asm_error + u8 list" where
  "write_image parsed =
     asm_bind (buf_slice (pr_code parsed) (pr_code_addr parsed) (pr_code_size parsed)) (\<lambda>code.
     asm_bind (buf_slice (pr_data parsed) (pr_data_addr parsed) (pr_data_size parsed)) (\<lambda>dat.
       Inr ([0x42, 0x56, 0x4D, 0x31, 1, 0] @ write_u16_le (pr_entry_point parsed)
            @ write_u16_le (pr_code_size parsed) @ write_u16_le (pr_code_addr parsed)
            @ write_u16_le (pr_data_size parsed) @ write_u16_le (pr_data_addr parsed) @ code @ dat)))"

definition assemble :: "string \<Rightarrow> (asm_error + u8 list) option" where
  "assemble source =
     (case lex source of
        Inl e \<Rightarrow> Some (Inl (asm_message e))
      | Inr tokens \<Rightarrow>
          map_option (\<lambda>r. case r of Inl e \<Rightarrow> Inl (asm_message e) | Inr parsed \<Rightarrow> write_image parsed)
            (assemble_tokens tokens))"

end
