(* ===== verification/Bvm_Main.thy ===== *)
theory Bvm_Main
  imports Bvm_Debugger Bvm_Assembler
begin

text \<open>
  The command line (src/main.c). The process sees a console, a standard error stream and a
  file system: the contents of the files that can be opened for reading, whether seeking to
  the end and asking for the position succeed there, where reading stops early if it does,
  the paths that can be opened for writing, the number of bytes that fwrite still accepts, and
  how many of them reach the file when it is closed, if not all do.
  Allocation succeeds. An exit status is an \<^typ>\<open>int\<close>; \<^const>\<open>None\<close> is undefined
  behaviour.
\<close>

unbundle bit_operations_syntax

definition MAX_STEPS :: nat where
  "MAX_STEPS = 10000000"

record World =
  w_host :: Host
  w_err :: string
  w_files :: "string \<Rightarrow> u8 list option"
  w_seek :: "string \<Rightarrow> bool"
  w_tell :: "string \<Rightarrow> bool"
  w_short :: "string \<Rightarrow> nat option"
  w_writable :: "string \<Rightarrow> bool"
  w_room :: nat
  w_lost :: "string \<Rightarrow> nat option"

definition eprint :: "World \<Rightarrow> string \<Rightarrow> World" where
  "eprint w s = w\<lparr>w_err := w_err w @ s\<rparr>"

definition oprint :: "World \<Rightarrow> string \<Rightarrow> World" where
  "oprint w s = w\<lparr>w_host := putstr (w_host w) s\<rparr>"

definition usage :: "string \<Rightarrow> World \<Rightarrow> World" where
  "usage prog w = eprint w
     (''ByteVM -- a 16-bit register virtual machine'' @ [CHR 0x0A, CHR 0x0A] @ ''Usage:'' @ [CHR 0x0A]
      @ ''  '' @ prog @ '' run <file.asm|file.bvm>   assemble if needed, then execute'' @ [CHR 0x0A]
      @ ''  '' @ prog @ '' asm <file.asm> <out.bvm>  assemble to a .bvm file'' @ [CHR 0x0A]
      @ ''  '' @ prog @ '' dis <file.asm|file.bvm>   disassemble back to assembly text'' @ [CHR 0x0A]
      @ ''  '' @ prog @ '' debug <file.asm|file.bvm> step through it interactively'' @ [CHR 0x0A])"

definition read_file :: "string \<Rightarrow> World \<Rightarrow> u8 list option \<times> World" where
  "read_file path w =
     (case w_files w path of
        None \<Rightarrow> (None, eprint w (''bytevm: cannot open '' @ [CHR 0x27] @ path @ [CHR 0x27, CHR 0x0A]))
      | Some contents \<Rightarrow>
          if \<not> w_seek w path
          then (None, eprint w (''bytevm: cannot seek '' @ [CHR 0x27] @ path @ [CHR 0x27, CHR 0x0A]))
          else if \<not> w_tell w path
          then (None, eprint w (''bytevm: cannot size '' @ [CHR 0x27] @ path @ [CHR 0x27, CHR 0x0A]))
          else (Some (case w_short w path of None \<Rightarrow> contents | Some got \<Rightarrow> take got contents), w))"

definition has_suffix :: "string \<Rightarrow> string \<Rightarrow> bool" where
  "has_suffix s suffix \<longleftrightarrow> length s \<ge> length suffix \<and> drop (length s - length suffix) s = suffix"

text \<open>A NUL-terminated buffer read as source text.\<close>

definition source_text :: "u8 list \<Rightarrow> string" where
  "source_text bs = cstr (map (\<lambda>b. char_of (unat b)) bs)"

text \<open>The image is \<^const>\<open>None\<close> when the C function returns NULL.\<close>

definition image_from_path :: "string \<Rightarrow> World \<Rightarrow> (u8 list option \<times> World) option" where
  "image_from_path path w =
     (case read_file path w of
        (None, w) \<Rightarrow> Some (None, w)
      | (Some contents, w) \<Rightarrow>
          if \<not> has_suffix path ''.asm'' then Some (Some contents, w)
          else (case assemble (source_text contents) of
                  None \<Rightarrow> None
                | Some (Inl AsmUB) \<Rightarrow> None
                | Some (Inl (AsmError msg line)) \<Rightarrow> Some (None, eprint w (path @ '':'' @ msg @ [CHR 0x0A]))
                | Some (Inr img) \<Rightarrow> Some (Some img, w)))"

function run_loop :: "nat \<Rightarrow> VM \<Rightarrow> Host \<Rightarrow> (VM \<times> Host) option" where
  "run_loop steps vm h =
     (if \<not> vm_halted vm \<and> steps < MAX_STEPS
      then do { (r, vm, h) \<leftarrow> vm_step vm h; run_loop (steps + 1) vm h }
      else Some (vm, h))"
  by pat_completeness auto
termination
  by (relation "measure (\<lambda>(steps, vm, h). MAX_STEPS - steps)") auto

declare run_loop.simps [simp del]

text \<open>\<open>vm0\<close> is the uninitialised machine that malloc returns.\<close>

definition cmd_run :: "VM \<Rightarrow> string \<Rightarrow> World \<Rightarrow> (int \<times> World) option" where
  "cmd_run vm0 path w = do {
     (img, w) \<leftarrow> image_from_path path w;
     (case img of
        None \<Rightarrow> Some (1, w)
      | Some img \<Rightarrow> do {
          (load, vm) \<leftarrow> vm_load (vm_init vm0) img;
          if load \<noteq> VM_OK then Some (1, eprint w (''bytevm: '' @ vm_result_str load @ [CHR 0x0A]))
          else do {
            (vm, h) \<leftarrow> run_loop 0 vm (w_host w);
            let w = w\<lparr>w_host := h\<rparr>;
            if vm_last_error vm \<noteq> VM_OK then
              Some (1, eprint w (''bytevm: '' @ vm_result_str (vm_last_error vm) @ '' at PC=0x''
                         @ fmt_0X 4 (unat (vm_error_pc vm)) @ [CHR 0x0A]))
            else if \<not> vm_halted vm then
              Some (1, eprint w (''bytevm: step limit ('' @ fmt_d (int MAX_STEPS) @ '') reached without halting'' @ [CHR 0x0A]))
            else do {
              r0 \<leftarrow> reg_get (vm_cpu vm) 0;
              Some (uint (r0 AND 0xFF), w)
            }
          }
        })
   }"

text \<open>
  fwrite hands the bytes to a buffer and counts what it accepted; the buffer is flushed by fclose,
  whose result is not looked at.
\<close>

definition cmd_asm :: "string \<Rightarrow> string \<Rightarrow> World \<Rightarrow> (int \<times> World) option" where
  "cmd_asm in_path out_path w = do {
     (img, w) \<leftarrow> image_from_path in_path w;
     (case img of
        None \<Rightarrow> Some (1, w)
      | Some img \<Rightarrow>
          if \<not> w_writable w out_path
          then Some (1, eprint w (''bytevm: cannot write '' @ [CHR 0x27] @ out_path @ [CHR 0x27, CHR 0x0A]))
          else
            let written = min (length img) (w_room w);
                flushed = (case w_lost w out_path of None \<Rightarrow> written | Some n \<Rightarrow> min n written);
                w = w\<lparr>w_files := (w_files w)(out_path \<mapsto> take flushed img), w_room := w_room w - written\<rparr>
            in if written \<noteq> length img
               then Some (1, eprint w (''bytevm: short write to '' @ [CHR 0x27] @ out_path @ [CHR 0x27, CHR 0x0A]))
               else Some (0, oprint w (''wrote '' @ out_path @ '' ('' @ fmt_u (length img) @ '' bytes)'' @ [CHR 0x0A])))
   }"

definition cmd_dis :: "string \<Rightarrow> World \<Rightarrow> (int \<times> World) option" where
  "cmd_dis path w = do {
     (img, w) \<leftarrow> image_from_path path w;
     (case img of
        None \<Rightarrow> Some (1, w)
      | Some img \<Rightarrow> do {
          result \<leftarrow> disassemble img;
          (case result of
             Inl error \<Rightarrow> Some (1, eprint w (''bytevm: '' @ error @ [CHR 0x0A]))
           | Inr text \<Rightarrow> Some (0, oprint w text))
        })
   }"

definition cmd_debug :: "VM \<Rightarrow> string \<Rightarrow> World \<Rightarrow> (int \<times> World) option" where
  "cmd_debug vm0 path w = do {
     (img, w) \<leftarrow> image_from_path path w;
     (case img of
        None \<Rightarrow> Some (1, w)
      | Some img \<Rightarrow> do {
          (load, vm) \<leftarrow> vm_load (vm_init vm0) img;
          if load \<noteq> VM_OK then Some (1, eprint w (''bytevm: '' @ vm_result_str load @ [CHR 0x0A]))
          else do {
            (dbg, h) \<leftarrow> debugger_repl (debugger_init vm img) (w_host w);
            Some (0, w\<lparr>w_host := h\<rparr>)
          }
        })
   }"

text \<open>\<open>argv\<close> is the list of the \<open>argc\<close> arguments, the program name first.\<close>

definition main :: "VM \<Rightarrow> string list \<Rightarrow> World \<Rightarrow> (int \<times> World) option" where
  "main vm0 argv w =
     (if length argv \<ge> 3 \<and> argv ! 1 = ''run'' then cmd_run vm0 (argv ! 2) w
      else if length argv \<ge> 4 \<and> argv ! 1 = ''asm'' then cmd_asm (argv ! 2) (argv ! 3) w
      else if length argv \<ge> 3 \<and> argv ! 1 = ''dis'' then cmd_dis (argv ! 2) w
      else if length argv \<ge> 3 \<and> argv ! 1 = ''debug'' then cmd_debug vm0 (argv ! 2) w
      else if argv = [] then None
      else Some (2, usage (argv ! 0) w))"

end
