(* ===== verification/Bvm_Run.thy ===== *)
theory Bvm_Run
  imports Bvm_Machine
begin

text \<open>
  Bounded runs of the machine. The command line and the debugger run it in loops of one shape:
  step until a condition holds or a number of steps is used up. \<open>run_until\<close> is that shape;
  the lemmas about it are proved for every machine that keeps an invariant and reach the
  loops through the interpretation of that interface on the machine.
\<close>

fun iter_step :: "('s \<Rightarrow> ('r \<times> 's) option) \<Rightarrow> nat \<Rightarrow> 's \<Rightarrow> 's option" where
  "iter_step step 0 s = Some s"
| "iter_step step (Suc n) s = do { (r, s) \<leftarrow> step s; iter_step step n s }"

fun run_until :: "('s \<Rightarrow> ('r \<times> 's) option) \<Rightarrow> ('s \<Rightarrow> bool) \<Rightarrow> nat \<Rightarrow> 's \<Rightarrow> 's option" where
  "run_until step stop 0 s = Some s"
| "run_until step stop (Suc n) s = (if stop s then Some s else do { (r, s) \<leftarrow> step s; run_until step stop n s })"

text \<open>
  \<open>stops_at\<close>: after \<open>k \<le> n\<close> steps the state is \<open>s'\<close>, no state before it satisfies the
  condition, and either it does or all \<open>n\<close> steps are used.
\<close>

definition stops_at :: "('s \<Rightarrow> ('r \<times> 's) option) \<Rightarrow> ('s \<Rightarrow> bool) \<Rightarrow> nat \<Rightarrow> nat \<Rightarrow> 's \<Rightarrow> 's \<Rightarrow> bool" where
  "stops_at step stop n k s s' \<longleftrightarrow> k \<le> n \<and> iter_step step k s = Some s' \<and>
     (\<forall>j < k. \<exists>t. iter_step step j s = Some t \<and> \<not> stop t) \<and> (stop s' \<or> k = n)"

lemma run_until_stopped [simp]: "stop s \<Longrightarrow> run_until step stop n s = Some s"
  by (cases n) simp_all

context state_machine
begin

lemma iter_total: "inv s \<Longrightarrow> \<exists>s'. iter_step step n s = Some s' \<and> inv s'"
proof (induction n arbitrary: s)
  case (Suc n)
  from step_total [OF Suc.prems] obtain r s1 where "step s = Some (r, s1)" "inv s1" by blast
  with Suc.IH show ?case by auto
qed simp

lemma run_until_total:
  "inv s \<Longrightarrow> \<exists>k s'. run_until step stop n s = Some s' \<and> inv s' \<and> stops_at step stop n k s s'"
proof (induction n arbitrary: s)
  case 0
  then show ?case by (simp add: stops_at_def)
next
  case (Suc n)
  show ?case
  proof (cases "stop s")
    case True
    with Suc.prems show ?thesis by (intro exI [of _ 0] exI [of _ s]) (simp add: stops_at_def)
  next
    case False
    from step_total [OF Suc.prems] obtain r s1 where s1: "step s = Some (r, s1)" "inv s1" by blast
    from Suc.IH [OF s1(2)] obtain k s' where
      k: "run_until step stop n s1 = Some s'" "inv s'" "stops_at step stop n k s1 s'" by blast
    have "\<exists>t. iter_step step j s = Some t \<and> \<not> stop t" if "j < Suc k" for j
      using that k(3) s1(1) False by (cases j) (auto simp: stops_at_def)
    with k s1(1) False show ?thesis by (intro exI [of _ "Suc k"] exI [of _ s']) (auto simp: stops_at_def)
  qed
qed

text \<open>A bigger bound makes no difference once the condition holds.\<close>

lemma stops_at_mono: "stops_at step stop n k s s' \<Longrightarrow> stop s' \<Longrightarrow> n \<le> m \<Longrightarrow> stops_at step stop m k s s'"
  by (auto simp: stops_at_def)

lemma stops_at_unique:
  assumes "stops_at step stop n k s s'" "stops_at step stop n k' s t'"
  shows "k = k' \<and> s' = t'"
proof -
  have "\<not> k < k'" using assms by (auto simp: stops_at_def)
  moreover have "\<not> k' < k" using assms by (auto simp: stops_at_def)
  ultimately show ?thesis using assms by (auto simp: stops_at_def)
qed

end

lemma iter_reaches: "iter_step machine_step n (vm, h) = Some (vm', h') \<Longrightarrow> vm_reaches vm h vm' h'"
proof (induction n arbitrary: vm h)
  case (Suc n)
  then obtain r vm1 h1 where "vm_step vm h = Some (r, vm1, h1)" "iter_step machine_step n (vm1, h1) = Some (vm', h')"
    by (auto simp: machine_step_def [of "(vm, h)"])
  with Suc.IH show ?case by (auto intro: reaches_step)
qed (simp add: reaches_refl)

subsection \<open>Steps and the console\<close>

lemma read_skip_shorter: "read_skip_spaces cs = (c, cs') \<Longrightarrow> length cs' + (case c of None \<Rightarrow> 0 | Some d \<Rightarrow> 1) \<le> length cs"
  by (induction cs) (auto split: if_split_asm)

lemma getchar_shorter: "getchar cs = (c, cs') \<Longrightarrow> length cs' + (case c of None \<Rightarrow> 0 | Some d \<Rightarrow> 1) \<le> length cs"
  by (auto simp: getchar_def split: list.splits)

lemma read_digits_shorter:
  "read_digits c cs f m = (c', cs', f', m') \<Longrightarrow>
     length cs' + (case c' of None \<Rightarrow> 0 | Some d \<Rightarrow> 1) \<le> length cs + (case c of None \<Rightarrow> 0 | Some d \<Rightarrow> 1)"
proof (induction c cs f m rule: read_digits.induct)
  case (1 c cs f m)
  show ?case
  proof (cases "\<exists>d. c = Some d \<and> is_digit d")
    case True
    then obtain d where d: "c = Some d" "is_digit d" by blast
    obtain c1 cs1 where g: "getchar cs = (c1, cs1)" by (cases "getchar cs")
    from "1.IH" [OF d(1,2) g [symmetric] refl] "1.prems" d g getchar_shorter [OF g] show ?thesis
      by (simp add: read_digits.simps [of "Some d" cs])
  next
    case False
    with "1.prems" show ?thesis by (auto simp: read_digits.simps [of c cs] split: option.splits if_split_asm)
  qed
qed

lemma read_int_shorter: "read_int_from_stdin h = (v, h') \<Longrightarrow> length (host_in h') \<le> length (host_in h)"
proof -
  assume r: "read_int_from_stdin h = (v, h')"
  obtain c cs where s: "read_skip_spaces (host_in h) = (c, cs)" by (cases "read_skip_spaces (host_in h)")
  define p where "p = (if c = Some CHR ''-'' then getchar cs else (c, cs))"
  obtain c1 cs1 where p: "p = (c1, cs1)" by (cases p)
  obtain c2 cs2 f m where d: "read_digits c1 cs1 False 0 = (c2, cs2, f, m)" by (cases "read_digits c1 cs1 False 0")
  have "length cs1 + (case c1 of None \<Rightarrow> 0 | Some d \<Rightarrow> 1) \<le> length (host_in h)"
    using read_skip_shorter [OF s] getchar_shorter [of cs c1 cs1] p by (auto simp: p_def split: if_split_asm)
  with read_digits_shorter [OF d]
  have "length cs2 + (case c2 of None \<Rightarrow> 0 | Some d \<Rightarrow> 1) \<le> length (host_in h)" by simp
  moreover have "host_in h' = (case c2 of None \<Rightarrow> cs2 | Some d \<Rightarrow> d # cs2)"
    using r d p by (auto simp: read_int_from_stdin_def s p_def [symmetric] Let_def split: if_split_asm)
  ultimately show ?thesis by (auto split: option.splits)
qed

lemma execute_input: "instruction_execute vm h i = Some (r, vm', h') \<Longrightarrow> length (host_in h') \<le> length (host_in h)"
  using read_int_shorter [of h]
  by (cases "instr_opcode i")
    (auto simp: instruction_execute_def with_host_def exec_sys_def putstr_def Let_def split: if_split_asm prod.splits)

text \<open>A step never puts input back that it has not read.\<close>

lemma vm_step_input: "vm_step vm h = Some (r, vm', h') \<Longrightarrow> length (host_in h') \<le> length (host_in h)"
  by (auto simp: vm_step_def Let_def dest!: execute_input split: if_split_asm sum.split_asm)

lemma iter_input: "iter_step machine_step n s = Some s' \<Longrightarrow> length (host_in (snd s')) \<le> length (host_in (snd s))"
proof (induction n arbitrary: s)
  case (Suc n)
  then obtain r s1 where s1: "machine_step s = Some (r, s1)" "iter_step machine_step n s1 = Some s'" by auto
  then have "length (host_in (snd s1)) \<le> length (host_in (snd s))"
    using vm_step_input [of "fst s" "snd s" r "fst s1" "snd s1"] by (simp add: machine_step_def)
  with Suc.IH [OF s1(2)] show ?case by simp
qed simp

end
