(* ===== verification/Bvm_Listing.thy ===== *)
theory Bvm_Listing
  imports Bvm_Disassembler Bvm_Lexer
begin

text \<open>
  What the disassembler prints (src/disassembler.c), as a list of items (an instruction or a
  byte that decodes to none): the items cover exactly the bytes of the code, the printed text
  is that of the items, and the lexer reads it back as their tokens.
\<close>

unbundle bit_operations_syntax

subsection \<open>What the disassembler prints\<close>

definition printed :: "string \<Rightarrow> Out" where
  "printed t = \<lparr>out_buf = Some t, out_oom = False\<rparr>"

lemma out_printf_printed [simp]:
  "length s \<le> 255 \<Longrightarrow> out_printf s (printed t) = Some (printed (t @ s))"
  "length s \<le> 255 \<Longrightarrow> out_printf s out_init = Some (printed s)"
  "out_buf (printed t) = Some t" "\<not> out_oom (printed t)"
  by (simp_all add: out_printf_def printed_def out_init_def)

lemma show_base_length: "2 \<le> b \<Longrightarrow> n < b ^ Suc k \<Longrightarrow> length (show_base b n) \<le> Suc k"
proof (induction k arbitrary: n)
  case 0
  then show ?case by (subst show_base.simps) simp
next
  case (Suc k)
  have "n div b < b ^ Suc k" using Suc.prems by (simp add: div_less_iff_less_mult mult.commute)
  with Suc.IH Suc.prems(1) show ?case by (subst show_base.simps) auto
qed

lemma fmt_lengths:
  "length (fmt_u (unat (w :: u16))) \<le> 5" "length (fmt_0X 4 (unat (w :: u16))) = 4"
  "length (fmt_0X 2 (unat (b :: u8))) = 2"
proof -
  show "length (fmt_u (unat w)) \<le> 5"
    using show_base_length [of 10 "unat w" 4] unat_lt_65536 [of w] by (simp add: fmt_u_def)
  show "length (fmt_0X 4 (unat w)) = 4"
    using show_base_length [of 16 "unat w" 3] unat_lt_65536 [of w] by (simp add: fmt_0X_def Let_def)
  show "length (fmt_0X 2 (unat b)) = 2"
    using show_base_length [of 16 "unat b" 1] unat_lt_256 [of b] by (simp add: fmt_0X_def Let_def)
qed

definition operand_text :: "Opcode \<Rightarrow> u8 \<Rightarrow> Operand \<Rightarrow> string" where
  "operand_text opcode legal op =
     (case op_mode op of
        MODE_REG \<Rightarrow> CHR ''R'' # fmt_u (unat (op_value op))
      | MODE_REG_INDIRECT \<Rightarrow> ''[R'' @ fmt_u (unat (op_value op)) @ '']''
      | MODE_IMM16 \<Rightarrow> fmt_u (unat (op_value op))
      | MODE_IMM8 \<Rightarrow>
          (case (if opcode = OP_SYS then syscall_name_for (op_value op) else None) of
             Some name \<Rightarrow> name | None \<Rightarrow> fmt_u (unat (op_value op)))
      | MODE_MEM_DIRECT \<Rightarrow>
          if legal AND MODE_BIT MODE_REG_INDIRECT \<noteq> 0 then ''[0x'' @ fmt_0X 4 (unat (op_value op)) @ '']''
          else ''0x'' @ fmt_0X 4 (unat (op_value op))
      | _ \<Rightarrow> [])"

definition instr_text :: "Instruction \<Rightarrow> string" where
  "instr_text i =
     (let info = opcode_info (instr_opcode i) in
      (case mnemonic_for (instr_opcode i) of Some s \<Rightarrow> s | None \<Rightarrow> []) @
      (if op_mode (instr_op1 i) = MODE_NONE then []
       else '' '' @ operand_text (instr_opcode i) (info_op1_modes info) (instr_op1 i) @
         (if op_mode (instr_op2 i) = MODE_NONE then []
          else '', '' @ operand_text (instr_opcode i) (info_op2_modes info) (instr_op2 i))))"

lemma format_operand_text:
  assumes "operand_wf op" "op_mode op \<noteq> MODE_NONE"
  shows "format_operand opcode op legal (printed t) = Some (printed (t @ operand_text opcode legal op))"
proof -
  have [simp]: "length (fmt_u (unat (op_value op))) \<le> n" if "5 \<le> n" for n
    using fmt_lengths(1) [of "op_value op"] that by (rule order_trans)
  show ?thesis
    using assms by (cases "op_mode op")
      (auto simp: format_operand_def operand_text_def operand_wf_def fmt_lengths MODE_BIT_def syscall_name_for_def)
qed

lemma mnemonic_known: "info_valid (opcode_info op) \<Longrightarrow> \<exists>s. mnemonic_for op = Some s \<and> length s \<le> 5"
  by (cases op) auto

lemma format_instruction_text:
  assumes "instr_wf i"
  shows "format_instruction i (printed t) = Some (printed (t @ instr_text i))"
    "format_instruction i out_init = Some (printed (instr_text i))"
proof -
  from assms have v: "info_valid (opcode_info (instr_opcode i))" "operand_wf (instr_op1 i)" "operand_wf (instr_op2 i)"
    by (auto simp: instr_wf_def Let_def)
  from mnemonic_known [OF v(1)] obtain s where s: "mnemonic_for (instr_opcode i) = Some s" "length s \<le> 5" by blast
  from v s show "format_instruction i (printed t) = Some (printed (t @ instr_text i))"
    "format_instruction i out_init = Some (printed (instr_text i))"
    by (simp_all add: format_instruction_def instr_text_def instruction_opcode_modes_def OPCODE_TABLE_code Let_def
        format_operand_text)
qed

text \<open>The lines of a disassembly, as items: an instruction, or a byte that decodes to none.\<close>

datatype dis_item = ItemInstr Instruction | ItemByte u8

fun item_line :: "dis_item \<Rightarrow> string" where
  "item_line (ItemInstr i) = ''    '' @ instr_text i @ [CHR 0x0A]"
| "item_line (ItemByte b) = ''    .byte 0x'' @ fmt_0X 2 (unat b) @ [CHR 0x0A]"

fun item_bytes :: "dis_item \<Rightarrow> u8 list" where
  "item_bytes (ItemInstr i) = encode_instruction i"
| "item_bytes (ItemByte b) = [b]"

fun item_wf :: "dis_item \<Rightarrow> bool" where
  "item_wf (ItemInstr i) = instr_wf i"
| "item_wf (ItemByte b) = True"

function dis_items :: "Memory \<Rightarrow> u16 \<Rightarrow> u16 \<Rightarrow> dis_item list" where
  "dis_items mem pc end_pc =
     (if pc < end_pc then
        (case instruction_decode mem pc of
           Inr (i, next) \<Rightarrow>
             if next > end_pc \<or> next \<le> pc then ItemByte (mem_read8 mem pc) # dis_items mem (pc + 1) end_pc
             else ItemInstr i # dis_items mem next end_pc
         | Inl e \<Rightarrow> ItemByte (mem_read8 mem pc) # dis_items mem (pc + 1) end_pc)
      else [])"
  by pat_completeness auto
termination
  by (relation "measure (\<lambda>(mem, pc, end_pc). unat end_pc - unat pc)")
    (auto simp: pc_step_less word_less_nat_alt word_le_nat_alt not_le not_less)

declare dis_items.simps [simp del]

lemma disassemble_code_text:
  "disassemble_code mem pc end_pc (printed t) =
     Some (printed (t @ concat (map item_line (dis_items mem pc end_pc))))"
proof (induction mem pc end_pc arbitrary: t rule: dis_items.induct)
  case (1 mem pc end_pc)
  show ?case
  proof (cases "instruction_decode mem pc")
    case (Inl e)
    with 1 show ?thesis
      by (simp add: disassemble_code.simps [of mem pc] dis_items.simps [of mem pc] fmt_lengths)
  next
    case (Inr r)
    obtain i nxt where r: "r = (i, nxt)" by (cases r)
    have "instr_wf i" using codec.decoded_wf [OF Inr [unfolded r]] .
    with 1 Inr r show ?thesis
      by (auto simp: disassemble_code.simps [of mem pc] dis_items.simps [of mem pc] fmt_lengths format_instruction_text)
  qed
qed

lemma pc_succ: "(pc :: u16) < e \<Longrightarrow> unat (pc + 1) = unat pc + 1"
  using unat_lt_65536 [of e] by (simp add: unat_word_ariths word_less_nat_alt)

lemma dis_items_bytes:
  assumes "pc \<le> end_pc"
  shows "mem_has mem pc (concat (map item_bytes (dis_items mem pc end_pc))) \<and>
    length (concat (map item_bytes (dis_items mem pc end_pc))) = unat end_pc - unat pc \<and>
    list_all item_wf (dis_items mem pc end_pc)"
  using assms
proof (induction mem pc end_pc rule: dis_items.induct)
  case (1 mem pc end_pc)
  show ?case
  proof (cases "pc < end_pc")
    case False
    then show ?thesis using "1.prems" by (simp add: dis_items.simps [of mem end_pc end_pc])
  next
    case True
    have step: "pc + 1 \<le> end_pc" "unat end_pc - unat (pc + 1) + 1 = unat end_pc - unat pc"
      using pc_succ [OF True] True by (simp_all add: word_le_nat_alt word_less_nat_alt)
    show ?thesis
    proof (cases "instruction_decode mem pc")
      case (Inl e)
      with 1 True step show ?thesis by (simp add: dis_items.simps [of mem pc])
    next
      case (Inr r)
      obtain i nxt where r: "r = (i, nxt)" by (cases r)
      note d = Inr [unfolded r instruction_decode_iff]
      have l: "length (encode_instruction i) \<le> 6" using encode_length_bounds by simp
      show ?thesis
      proof (cases "nxt > end_pc \<or> nxt \<le> pc")
        case True
        with 1 \<open>pc < end_pc\<close> Inr r step show ?thesis by (auto simp add: dis_items.simps [of mem pc])
      next
        case False
        then have lt: "unat pc < unat nxt" "unat nxt \<le> unat end_pc" by (auto simp: word_less_nat_alt word_le_nat_alt)
        have "unat nxt = unat pc + length (encode_instruction i)"
        proof (cases "unat pc + length (encode_instruction i) < 65536")
          case True
          with d show ?thesis by (simp add: unat_add_nat)
        next
          case False
          then have "(unat pc + length (encode_instruction i)) mod 65536 = unat pc + length (encode_instruction i) - 65536"
            using l unat_lt_65536 [of pc] by (simp add: le_mod_geq)
          with d l lt False unat_lt_65536 [of pc] show ?thesis
            by (auto simp: unat_word_ariths unat_of_nat_u16)
        qed
        with 1 \<open>pc < end_pc\<close> Inr r False d lt show ?thesis by (auto simp add: dis_items.simps [of mem pc])
      qed
    qed
  qed
qed

subsection \<open>Lexing what was printed\<close>

lemma lex_loop_round:
  "lex_round c cs l = Inr (p, l', Some t) \<Longrightarrow> lex_loop (c # cs) l out = lex_loop p l' (out @ [t])"
  by (simp add: lex_loop.simps(2))

lemma lex_space [simp]: "lex_loop (CHR '' '' # p) l out = lex_loop p l out"
  by (simp add: lex_loop.simps(2) lex_round_def)

lemma lex_marks [simp]:
  "lex_loop (CHR 0x0A # p) l out = lex_loop p (l + 1) (out @ [simple_tok TOK_NEWLINE l])"
  "lex_loop (CHR '','' # p) l out = lex_loop p l (out @ [simple_tok TOK_COMMA l])"
  "lex_loop (CHR ''['' # p) l out = lex_loop p l (out @ [simple_tok TOK_LBRACKET l])"
  "lex_loop (CHR '']'' # p) l out = lex_loop p l (out @ [simple_tok TOK_RBRACKET l])"
  by (simp_all add: lex_loop.simps(2) lex_round_def)

lemma lex_comment:
  assumes "CHR 0x0A \<notin> set s"
  shows "lex_loop (CHR '';'' # s @ CHR 0x0A # p) l out = lex_loop p (l + 1) (out @ [simple_tok TOK_NEWLINE l])"
proof -
  have "dropWhile (\<lambda>d. d \<noteq> CHR 0x0A) (s @ CHR 0x0A # p) = CHR 0x0A # p"
    using assms by (induction s) auto
  then show ?thesis by (simp add: lex_loop.simps(2) [of "CHR '';''"] lex_round_def)
qed

lemma lex_ident:
  assumes "ident_ok s" "\<not> is_ident_char c"
  shows "lex_loop (s @ c # p) l out = lex_loop (c # p) l (out @ [text_tok TOK_IDENT l s])"
proof -
  obtain d ds where s: "s = d # ds" "is_alpha d \<or> d = CHR ''_''" using assms(1) by (cases s) (auto simp: ident_ok_def)
  have "takeWhile is_ident_char (s @ c # p) = s" "dropWhile is_ident_char (s @ c # p) = c # p"
    using takeWhile_digits [of is_ident_char s "c # p"] assms by (auto simp: ident_ok_def)
  with s alpha_not_punct [OF s(2)] show ?thesis
    by (simp only: s(1) append_Cons) (intro lex_loop_round, auto simp: lex_round_def)
qed

lemma lex_directive:
  assumes "directive_ok s" "\<not> is_alpha c"
  shows "lex_loop (CHR ''.'' # s @ c # p) l out = lex_loop (c # p) l (out @ [text_tok TOK_DIRECTIVE l s])"
  using takeWhile_digits [of is_alpha s "c # p"] assms
  by (intro lex_loop_round) (simp add: lex_round_def directive_ok_def Let_def)

fun hex_value :: "nat \<Rightarrow> string \<Rightarrow> nat" where
  "hex_value acc [] = acc"
| "hex_value acc (c # cs) = hex_value (acc * 16 + hex_val c) cs"

lemma hex_value_append: "hex_value acc (xs @ ys) = hex_value (hex_value acc xs) ys"
  by (induction xs arbitrary: acc) simp_all

lemma hex_value_ge: "n \<le> hex_value n ds"
proof (induction ds arbitrary: n)
  case (Cons d ds)
  have "n \<le> n * 16 + hex_val d" by simp
  also have "\<dots> \<le> hex_value (n * 16 + hex_val d) ds" by (rule Cons.IH)
  finally show ?case by simp
qed simp

lemma show_base_hex: "hex_value 0 (show_base 16 n) = n \<and> list_all is_xdigit (show_base 16 n)"
proof (induction "16 :: nat" n rule: show_base.induct)
  case (1 n)
  then show ?case by (subst (1 2) show_base.simps) (auto simp: hex_value_append hex_digit_facts)
qed

lemma fmt_0X_hex: "hex_value 0 (fmt_0X w n) = n" "list_all is_xdigit (fmt_0X w n)" "fmt_0X w n \<noteq> []"
proof -
  have "hex_value 0 (replicate k CHR ''0'') = 0" for k
    by (induction k) (simp_all add: hex_val_def to_lower_def is_upper_def)
  then show "hex_value 0 (fmt_0X w n) = n" using show_base_hex [of n] by (simp add: fmt_0X_def Let_def hex_value_append)
  show "list_all is_xdigit (fmt_0X w n)" using show_base_hex [of n]
    by (simp add: fmt_0X_def Let_def) (simp add: list_all_iff is_xdigit_def is_digit_def)
  show "fmt_0X w n \<noteq> []" by (simp add: fmt_0X_def Let_def)
qed

lemma lex_hex_digits_run:
  assumes "list_all is_xdigit ds" "\<not> is_xdigit c" "int (hex_value n ds) \<le> int64_max"
  shows "lex_hex_digits (ds @ c # rest) (int n) = Inr (int (hex_value n ds), c # rest)"
  using assms
proof (induction ds arbitrary: n)
  case (Cons d ds)
  have "int (n * 16 + hex_val d) \<le> int (hex_value (n * 16 + hex_val d) ds)"
    using hex_value_ge by (simp only: zle_int)
  with Cons.prems have "int (n * 16 + hex_val d) \<le> int64_max" by simp
  with Cons.IH [of "n * 16 + hex_val d"] Cons.prems show ?case by (simp add: Let_def mult.commute)
qed simp

lemma lex_hex:
  assumes "\<not> is_xdigit c" "int n \<le> int64_max"
  shows "lex_loop (CHR ''0'' # CHR ''x'' # fmt_0X w n @ c # p) l out = lex_loop (c # p) l (out @ [num_tok l (int n)])"
proof -
  obtain d ds where d: "fmt_0X w n = d # ds" "is_xdigit d" using fmt_0X_hex(2,3) [of w n] by (cases "fmt_0X w n") auto
  have "lex_hex_digits (fmt_0X w n @ c # p) 0 = Inr (int n, c # p)"
    using lex_hex_digits_run [OF fmt_0X_hex(2) assms(1), of 0 w n p] assms(2) by (simp add: fmt_0X_hex)
  then have "lex_magnitude (CHR ''0'' # CHR ''x'' # fmt_0X w n @ c # p) l = Inr (int n, c # p)"
    using d by (simp add: lex_magnitude_def del: lex_hex_digits.simps)
  then show ?thesis
    by (intro lex_loop_round) (simp add: lex_round_def lex_number_def is_digit_def)
qed

lemma lex_dec:
  assumes "\<not> is_digit c" "c \<noteq> CHR ''x''" "c \<noteq> CHR ''X''" "int n \<le> int64_max"
  shows "lex_loop (fmt_u n @ c # p) l out = lex_loop (c # p) l (out @ [num_tok l (int n)])"
proof -
  obtain d ds where d: "show_base 10 n = d # ds" "is_digit d" "list_all is_digit ds" using show_base_cons by blast
  have dec: "lex_dec_digits (show_base 10 n @ c # p) 0 = Inr (int n, c # p)"
    using lex_dec_digits_run [OF show_base_digits, of "c # p" 0 n] assms by (simp add: dec_value_show_base)
  have "lex_magnitude (show_base 10 n @ c # p) l = Inr (int n, c # p)"
    using dec d assms digit_not_x
    by (cases ds) (auto simp: lex_magnitude_def simp del: lex_dec_digits.simps)
  moreover have "d \<noteq> CHR ''-''" using d(2) by (auto simp: is_digit_def)
  ultimately have "lex_round d (ds @ c # p) l = Inr (c # p, l, Some (num_tok l (int n)))"
    using d(1,2) digit_not_punct [of d] by (simp add: lex_round_def lex_number_def)
  then show ?thesis by (simp add: fmt_u_def d(1) lex_loop_round)
qed

subsubsection \<open>The tokens of an item\<close>

definition operand_toks :: "nat \<Rightarrow> Opcode \<Rightarrow> u8 \<Rightarrow> Operand \<Rightarrow> Token list" where
  "operand_toks l opcode legal op =
     (let num = num_tok l (uint (op_value op)); reg = text_tok TOK_IDENT l (CHR ''R'' # fmt_u (unat (op_value op)))
      in case op_mode op of
        MODE_REG \<Rightarrow> [reg]
      | MODE_REG_INDIRECT \<Rightarrow> [simple_tok TOK_LBRACKET l, reg, simple_tok TOK_RBRACKET l]
      | MODE_IMM16 \<Rightarrow> [num]
      | MODE_IMM8 \<Rightarrow>
          (case (if opcode = OP_SYS then syscall_name_for (op_value op) else None) of
             Some name \<Rightarrow> [text_tok TOK_IDENT l name] | None \<Rightarrow> [num])
      | MODE_MEM_DIRECT \<Rightarrow>
          if legal AND MODE_BIT MODE_REG_INDIRECT \<noteq> 0
          then [simple_tok TOK_LBRACKET l, num, simple_tok TOK_RBRACKET l] else [num]
      | _ \<Rightarrow> [])"

definition instr_toks :: "nat \<Rightarrow> Instruction \<Rightarrow> Token list" where
  "instr_toks l i =
     (let info = opcode_info (instr_opcode i) in
      text_tok TOK_IDENT l (case mnemonic_for (instr_opcode i) of Some s \<Rightarrow> s | None \<Rightarrow> []) #
      (if op_mode (instr_op1 i) = MODE_NONE then []
       else operand_toks l (instr_opcode i) (info_op1_modes info) (instr_op1 i) @
         (if op_mode (instr_op2 i) = MODE_NONE then []
          else simple_tok TOK_COMMA l # operand_toks l (instr_opcode i) (info_op2_modes info) (instr_op2 i))))"

fun item_toks :: "nat \<Rightarrow> dis_item \<Rightarrow> Token list" where
  "item_toks l (ItemInstr i) = instr_toks l i @ [simple_tok TOK_NEWLINE l]"
| "item_toks l (ItemByte b) =
     [text_tok TOK_DIRECTIVE l ''byte'', num_tok l (uint b), simple_tok TOK_NEWLINE l]"

fun items_toks :: "nat \<Rightarrow> dis_item list \<Rightarrow> Token list" where
  "items_toks l [] = []"
| "items_toks l (it # its) = item_toks l it @ items_toks (l + 1) its"

lemma u16_int64: "uint (w :: u16) \<le> int64_max" "uint (b :: u8) \<le> int64_max"
proof -
  have "int (unat w) < int 65536" "int (unat b) < int 256" by (simp_all only: of_nat_less_iff unat_lt_65536 unat_lt_256)
  then show "uint w \<le> int64_max" "uint b \<le> int64_max" by (simp_all add: int64_max_def)
qed

lemma reg_ident: "ident_ok (CHR ''R'' # fmt_u n)"
  using show_base_digits [of n]
  by (auto simp: ident_ok_def fmt_u_def list_all_iff is_ident_char_def ctype_defs)

lemma syscall_ident: "syscall_name_for v = Some s \<Longrightarrow> ident_ok s"
  by (auto simp: syscall_name_for_def ident_ok_def is_ident_char_def ctype_defs split: if_split_asm)

lemma mnemonic_ident: "mnemonic_for op = Some s \<Longrightarrow> ident_ok s"
  by (cases op) (auto simp: ident_ok_def is_ident_char_def ctype_defs)

lemma not_ident_marks:
  "c \<in> {CHR '','', CHR 0x0A, CHR '']'', CHR '' ''} \<Longrightarrow>
     \<not> is_ident_char c \<and> \<not> is_alpha c \<and> \<not> is_digit c \<and> \<not> is_xdigit c \<and> c \<noteq> CHR ''x'' \<and> c \<noteq> CHR ''X''"
  by (auto simp: is_ident_char_def ctype_defs)

lemma lex_operand:
  assumes "operand_wf op" "op_mode op \<noteq> MODE_NONE" "c \<in> {CHR '','', CHR 0x0A}"
  shows "lex_loop (operand_text opcode legal op @ c # p) l out = lex_loop (c # p) l (out @ operand_toks l opcode legal op)"
proof -
  have c: "\<not> is_ident_char c" "\<not> is_digit c" "\<not> is_xdigit c" "c \<noteq> CHR ''x''" "c \<noteq> CHR ''X''"
    using not_ident_marks [of c] assms(3) by auto
  note b = not_ident_marks [of "CHR '']''", simplified]
  have reg: "lex_loop (CHR ''R'' # fmt_u n @ d # q) l out = lex_loop (d # q) l (out @ [text_tok TOK_IDENT l (CHR ''R'' # fmt_u n)])"
    if "\<not> is_ident_char d" for n d q out
    using lex_ident [OF reg_ident that, of n q l out] by simp
  show ?thesis
    using assms(1,2) b c
    by (cases "op_mode op")
      (auto simp: operand_text_def operand_toks_def operand_wf_def Let_def reg lex_dec lex_hex u16_int64 lex_ident syscall_ident
        split: option.split if_split_asm simp del: lex_marks(1,2))
qed

lemma lex_instr:
  assumes "instr_wf i"
  shows "lex_loop (instr_text i @ CHR 0x0A # p) l out = lex_loop p (l + 1) (out @ instr_toks l i @ [simple_tok TOK_NEWLINE l])"
proof -
  from assms have v: "info_valid (opcode_info (instr_opcode i))" "operand_wf (instr_op1 i)" "operand_wf (instr_op2 i)"
    by (auto simp: instr_wf_def Let_def)
  from mnemonic_known [OF v(1)] obtain s where s: "mnemonic_for (instr_opcode i) = Some s" by blast
  note m = lex_ident [OF mnemonic_ident [OF s], of "CHR '' ''"] lex_ident [OF mnemonic_ident [OF s], of "CHR 0x0A"]
  show ?thesis
    using not_ident_marks [of "CHR '' ''"] not_ident_marks [of "CHR 0x0A"]
      lex_operand [OF v(2), of "CHR '',''"] lex_operand [OF v(2), of "CHR 0x0A"] lex_operand [OF v(3), of "CHR 0x0A"]
    by (simp add: instr_text_def instr_toks_def s m Let_def)
qed

lemma lex_item:
  "item_wf it \<Longrightarrow> lex_loop (item_line it @ p) l out = lex_loop p (l + 1) (out @ item_toks l it)"
proof (cases it)
  case (ItemByte b)
  have "directive_ok ''byte''" by (simp add: directive_ok_def ctype_defs)
  with ItemByte show ?thesis
    using lex_directive [of "''byte''" "CHR '' ''"] not_ident_marks [of "CHR '' ''"] not_ident_marks [of "CHR 0x0A"]
      lex_hex [of "CHR 0x0A"]
    by (simp add: u16_int64)
qed (simp add: lex_instr)

lemma lex_items:
  "list_all item_wf its \<Longrightarrow>
     lex_loop (concat (map item_line its) @ p) l out = lex_loop p (l + length its) (out @ items_toks l its)"
  by (induction its arbitrary: l out) (simp_all add: lex_item)

subsection \<open>The whole text\<close>

definition org_line :: "u16 \<Rightarrow> string" where
  "org_line a = ''.org 0x'' @ fmt_0X 4 (unat a) @ [CHR 0x0A]"

definition head_text :: "u16 \<Rightarrow> u16 \<Rightarrow> u16 \<Rightarrow> u16 \<Rightarrow> string" where
  "head_text ca cn da dn =
     ''; disassembled from a .bvm image'' @ [CHR 0x0A] @
     ''; code: '' @ fmt_u (unat cn) @ '' bytes at 0x'' @ fmt_0X 4 (unat ca) @
     (if dn > 0 then '', data: '' @ fmt_u (unat dn) @ '' bytes at 0x'' @ fmt_0X 4 (unat da) else []) @
     [CHR 0x0A, CHR 0x0A]"

definition dis_text :: "u16 \<Rightarrow> u16 \<Rightarrow> u16 \<Rightarrow> u8 list \<Rightarrow> dis_item list \<Rightarrow> string" where
  "dis_text ca cn da dat its =
     head_text ca cn da (of_nat (length dat)) @ (if ca \<noteq> 0 then org_line ca else []) @ concat (map item_line its) @
     (if dat = [] then []
      else CHR 0x0A # ''.data'' @ [CHR 0x0A] @ (if da \<noteq> ca + cn then org_line da else []) @
        concat (map item_line (map ItemByte dat)))"

lemma load_loop_total: "off + n \<le> length bs \<Longrightarrow> \<exists>mem'. load_loop mem addr bs off n i = Some mem'"
proof (induction "n - i" arbitrary: mem i)
  case (Suc k)
  then show ?case
    using Suc.hyps(1) [of "i + 1"] by (auto simp: load_loop.simps [of mem addr bs off n i] byte_at_def)
qed (simp add: load_loop.simps)

lemma disassemble_data_text:
  assumes "off + unat n \<le> length bs"
  shows "disassemble_data bs off n i (printed t) =
    Some (printed (t @ concat (map item_line (map ItemByte (drop (unat i) (take (unat n) (drop off bs)))))))"
proof (induction "unat n - unat i" arbitrary: i t)
  case 0
  then have "\<not> i < n" by (simp add: word_less_nat_alt)
  with 0 show ?case by (simp add: disassemble_data.simps [of bs off n i])
next
  case (Suc k)
  then have i: "i < n" by (simp add: word_less_nat_alt)
  have u: "unat (i + 1) = Suc (unat i)" using pc_succ [OF i] by simp
  have lt: "unat i < unat n" using i by (simp add: word_less_nat_alt)
  let ?ds = "take (unat n) (drop off bs)"
  have "?ds ! unat i = bs ! (off + unat i)" "unat i < length ?ds" using lt assms by simp_all
  then have d: "drop (unat i) ?ds = bs ! (off + unat i) # drop (Suc (unat i)) ?ds"
    using Cons_nth_drop_Suc [of "unat i" ?ds] by simp
  have "k = unat n - unat (i + 1)" using Suc.hyps(2) u by simp
  note IH = Suc.hyps(1) [OF this]
  have e: "disassemble_data bs off n i (printed t) =
      disassemble_data bs off n (i + 1) (printed (t @ item_line (ItemByte (bs ! (off + unat i)))))"
    using i lt assms by (subst disassemble_data.simps) (simp add: byte_at_def fmt_lengths)
  show ?case by (simp only: e IH u d) simp
qed

definition dis_error :: "u8 list \<Rightarrow> string option" where
  "dis_error bs =
     (if length bs < 16 \<or> take 6 bs \<noteq> [0x42, 0x56, 0x4D, 0x31, 1, 0] then Some ''not a valid BVM1 image''
      else if length bs < 16 + unat (header_word bs 8) + unat (header_word bs 12)
      then Some ''image is shorter than its header claims''
      else if header_word bs 6 \<noteq> header_word bs 10
      then Some (''entry_point (0x'' @ fmt_0X 4 (unat (header_word bs 6)) @ '') differs from code_addr (0x'' @
        fmt_0X 4 (unat (header_word bs 10)) @ ''); no .asm form of this exists'')
      else None)"

lemma disassemble_error:
  assumes "dis_error bs = Some msg"
  shows "disassemble bs = Some (Inl msg)"
proof (cases "16 \<le> length bs")
  case False
  with assms show ?thesis by (auto simp add: dis_error_def disassemble_def BVM_HEADER_SIZE_def snprintf_def)
next
  case True
  with assms show ?thesis
    by (auto simp: dis_error_def disassemble_def BVM_HEADER_SIZE_def memcmp_magic_def byte_at_def take6_split
        read_u16_le_header snprintf_def fmt_lengths split: if_split_asm)
qed

lemma disassemble_ok:
  assumes "dis_error bs = None"
  defines "ca \<equiv> header_word bs 10" and "cn \<equiv> header_word bs 8"
  shows "\<exists>mem. load_loop (mem_init \<lparr>mem_data = \<lambda>_. 0\<rparr>) (ucast ca) bs 16 (unat cn) 0 = Some mem \<and>
    disassemble bs = Some (Inr (dis_text ca cn (header_word bs 14) (image_data bs) (dis_items mem ca (ca + cn))))"
proof -
  from assms(1) have len: "16 \<le> length bs" "16 + unat cn + unat (header_word bs 12) \<le> length bs"
    and mg: "take 4 bs = [0x42, 0x56, 0x4D, 0x31]" "bs ! 4 = 1" "bs ! 5 = 0" and en: "header_word bs 6 = ca"
    by (auto simp: dis_error_def ca_def cn_def take6_split split: if_split_asm)
  let ?dn = "header_word bs 12"
  from load_loop_total [of 16 "unat cn" bs] len obtain mem where
    mem: "load_loop (mem_init \<lparr>mem_data = \<lambda>_. 0\<rparr>) (ucast ca) bs 16 (unat cn) 0 = Some mem" by fastforce
  have dat: "length (image_data bs) = unat ?dn" "image_data bs = take (unat ?dn) (drop (16 + unat cn) bs)"
    using image_code_length [of bs] len by (simp_all add: image_data_def cn_def)
  have dz: "(0 < ?dn) = (image_data bs \<noteq> [])" using dat(1) by (auto simp: word_gt_0 unat_eq_0)
  have lens: "length (fmt_u (unat w)) \<le> k" if "5 \<le> k" for w :: u16 and k
    using fmt_lengths(1) [of w] that by (rule order_trans)
  have words: "read_u16_le bs 6 = Some ca" "read_u16_le bs 8 = Some cn" "read_u16_le bs 10 = Some ca"
    "read_u16_le bs 12 = Some ?dn" "read_u16_le bs 14 = Some (header_word bs 14)"
    using len(1) en by (simp_all add: read_u16_le_header ca_def cn_def)
  have data: "disassemble_data bs (16 + unat cn) ?dn 0 (printed t) =
      Some (printed (t @ concat (map item_line (map ItemByte (image_data bs)))))" for t
    using disassemble_data_text [of "16 + unat cn" ?dn bs 0 t] len dat(2) by simp
  have "disassemble bs = Some (Inr (dis_text ca cn (header_word bs 14) (image_data bs) (dis_items mem ca (ca + cn))))"
    using len mg mem
    by (simp add: disassemble_def BVM_HEADER_SIZE_def memcmp_magic_def byte_at_def words dz fmt_lengths lens
        disassemble_code_text data dis_text_def head_text_def org_line_def dat(1) Let_def)
  with mem show ?thesis by blast
qed

end
