(* ===== verification/Bvm_Session.thy ===== *)
theory Bvm_Session
  imports Bvm_Debugger Bvm_Run Bvm_Listing
begin

text \<open>
  Correctness of the debugger (src/debugger.c): every command completes and keeps the
  invariant of the session, the breakpoint array is a bounded set, the loops of step and
  continue are bounded runs of the machine, reset restores the loaded machine, and a session
  ends.
\<close>

unbundle bit_operations_syntax

subsection \<open>What the commands keep\<close>

definition dbg_inv :: "Debugger \<Rightarrow> bool" where
  "dbg_inv dbg \<longleftrightarrow> vm_inv (dbg_vm dbg) \<and> distinct (dbg_breakpoints dbg) \<and>
     length (dbg_breakpoints dbg) \<le> DEBUGGER_MAX_BREAKPOINTS"

text \<open>A command that completes, keeps the invariant and the image, and reads input only forward.\<close>

definition cmd_ok :: "Debugger \<Rightarrow> Host \<Rightarrow> session \<Rightarrow> bool" where
  "cmd_ok dbg h r \<longleftrightarrow> (\<exists>dbg' h'. r = Some (dbg', h') \<and> dbg_inv dbg' \<and> dbg_image dbg' = dbg_image dbg \<and>
     dbg_quit_requested dbg' = dbg_quit_requested dbg \<and> length (host_in h') \<le> length (host_in h))"

lemma putstr_in [simp]: "host_in (putstr h s) = host_in h"
  by (simp add: putstr_def)

lemma putstr_putstr [simp]: "putstr (putstr h s) t = putstr h (s @ t)"
  by (simp add: putstr_def)

lemma cmd_ok_print [simp]: "dbg_inv dbg \<Longrightarrow> cmd_ok dbg h (Some (dbg, putstr h s))"
  by (simp add: cmd_ok_def)

lemma disassemble_one_text:
  "disassemble_one mem addr n =
     (case instruction_decode mem addr of
        Inl e \<Rightarrow> Some (False, snprintf n (''.byte 0x'' @ fmt_0X 2 (unat (mem_read8 mem addr))), addr + 1)
      | Inr (i, next) \<Rightarrow> Some (True, snprintf n (instr_text i), next))"
proof (cases "instruction_decode mem addr")
  case (Inr r)
  obtain i nxt where r: "r = (i, nxt)" by (cases r)
  have "instr_wf i" using codec.decoded_wf [OF Inr [unfolded r]] .
  with Inr r show ?thesis by (simp add: disassemble_one_def format_instruction_text)
qed (simp add: disassemble_one_def)

lemma disassemble_one_total: "\<exists>ok text next. disassemble_one mem addr n = Some (ok, text, next)"
  by (auto simp: disassemble_one_text split: sum.split)

lemma report_stop_total: "\<exists>s. report_stop dbg h = Some (putstr h s)"
  using disassemble_one_total [of "vm_memory (dbg_vm dbg)" "cpu_pc (vm_cpu (dbg_vm dbg))" 128]
  by (auto simp: report_stop_def Let_def)

lemma print_registers_total:
  "length (cpu_r cpu) = 8 \<Longrightarrow> list_all (\<lambda>i. i < 8) is \<Longrightarrow> \<exists>s. print_registers cpu is h = Some (putstr h s)"
proof (induction "is" arbitrary: h)
  case Nil
  show ?case by (intro exI [of _ "[]"]) (simp add: putstr_def)
next
  case (Cons i "is")
  then have "reg_get cpu (of_nat i) = Some (cpu_r cpu ! i)" by (simp add: reg_get_def unat_of_nat_u16)
  moreover have "\<exists>s. print_registers cpu is (putstr h t) = Some (putstr h (t @ s))" for t
    using Cons.IH [of "putstr h t"] Cons.prems by simp
  ultimately show ?case by auto
qed

lemma cmd_registers_ok: "dbg_inv dbg \<Longrightarrow> \<exists>s. cmd_registers dbg h = Some (dbg, putstr h s)"
proof -
  assume "dbg_inv dbg"
  then have "length (cpu_r (vm_cpu (dbg_vm dbg))) = 8" by (simp add: dbg_inv_def vm_inv_def)
  from print_registers_total [OF this, of "[0..<8]" h] obtain s where
    "print_registers (vm_cpu (dbg_vm dbg)) [0..<8] h = Some (putstr h s)" by (auto simp: list_all_iff)
  then show ?thesis by (auto simp: cmd_registers_def Let_def putstr_def simp del: upt_Suc)
qed

subsection \<open>The loops as bounded runs\<close>

definition halted_state :: "VM \<times> Host \<Rightarrow> bool" where
  "halted_state s \<longleftrightarrow> vm_halted (fst s)"

definition stop_state :: "u16 list \<Rightarrow> VM \<times> Host \<Rightarrow> bool" where
  "stop_state bps s \<longleftrightarrow> vm_halted (fst s) \<or> cpu_pc (vm_cpu (fst s)) \<in> set bps"

lemma has_breakpoint_iff [simp]: "has_breakpoint bps a \<longleftrightarrow> a \<in> set bps"
  by (induction bps) auto

lemma step_loop_run: "step_loop n vm h = run_until machine_step halted_state n (vm, h)"
proof (induction n arbitrary: vm h)
  case (Suc n)
  then show ?case by (cases "vm_step vm h") (auto simp: machine_step_def [of "(vm, h)"] halted_state_def)
qed simp

lemma continue_loop_stops:
  assumes "vm_inv vm"
  shows "\<exists>k hit vm' h'. continue_loop bps steps vm h = Some (hit, vm', h') \<and> vm_inv vm' \<and>
    stops_at machine_step (stop_state bps) (CONTINUE_STEP_LIMIT - steps) k (vm, h) (vm', h') \<and>
    (hit \<longleftrightarrow> \<not> vm_halted vm' \<and> k < CONTINUE_STEP_LIMIT - steps)"
  using assms
proof (induction "CONTINUE_STEP_LIMIT - steps" arbitrary: steps vm h)
  case 0
  then show ?case
    by (intro exI [of _ 0] exI [of _ False] exI [of _ vm] exI [of _ h])
      (simp add: continue_loop.simps [of bps steps] stops_at_def)
next
  case (Suc m)
  then have lt: "steps < CONTINUE_STEP_LIMIT" by simp
  show ?case
  proof (cases "stop_state bps (vm, h)")
    case True
    with Suc lt show ?thesis
      by (intro exI [of _ 0] exI [of _ "\<not> vm_halted vm"] exI [of _ vm] exI [of _ h])
        (auto simp: continue_loop.simps [of bps steps] stops_at_def stop_state_def)
  next
    case False
    from vm_step_inv [OF Suc.prems, of h] obtain r vm1 h1 where
      s1: "vm_step vm h = Some (r, vm1, h1)" "vm_inv vm1" by blast
    have m: "m = CONTINUE_STEP_LIMIT - (steps + 1)" using Suc.hyps(2) by simp
    from Suc.hyps(1) [OF m s1(2), of h1, folded m] obtain k hit vm' h' where
      k: "continue_loop bps (steps + 1) vm1 h1 = Some (hit, vm', h')" "vm_inv vm'"
      "stops_at machine_step (stop_state bps) m k (vm1, h1) (vm', h')"
      "hit \<longleftrightarrow> \<not> vm_halted vm' \<and> k < m" by blast
    have "continue_loop bps steps vm h = Some (hit, vm', h')"
      using False lt s1(1) k(1) by (simp add: continue_loop.simps [of bps steps] stop_state_def)
    moreover have "\<exists>t. iter_step machine_step j (vm, h) = Some t \<and> \<not> stop_state bps t" if "j < Suc k" for j
      using that k(3) s1(1) False by (cases j) (auto simp: stops_at_def machine_step_def [of "(vm, h)"])
    then have "stops_at machine_step (stop_state bps) (Suc m) (Suc k) (vm, h) (vm', h')"
      using k(3) s1(1) by (auto simp: stops_at_def machine_step_def [of "(vm, h)"])
    ultimately show ?thesis using k(2,4) by (fold Suc.hyps(2)) auto
  qed
qed

subsection \<open>The breakpoints as a bounded set\<close>

locale bounded_set =
  fixes contents :: "'t \<Rightarrow> 'a set"
    and add :: "'t \<Rightarrow> 'a \<Rightarrow> 't"
    and remove :: "'t \<Rightarrow> 'a \<Rightarrow> 't"
    and inv :: "'t \<Rightarrow> bool"
    and cap :: nat
  assumes add_contents: "inv t \<Longrightarrow> contents (add t a) = (if card (contents t) < cap then insert a (contents t) else contents t)"
    and remove_contents: "inv t \<Longrightarrow> contents (remove t a) = contents t - {a}"
    and add_inv: "inv t \<Longrightarrow> inv (add t a)"
    and remove_inv: "inv t \<Longrightarrow> inv (remove t a)"
    and inv_finite: "inv t \<Longrightarrow> finite (contents t) \<and> card (contents t) \<le> cap"
begin

lemma add_remove: "inv t \<Longrightarrow> a \<notin> contents t \<Longrightarrow> contents (remove (add t a) a) = contents t"
  by (simp add: remove_contents add_inv add_contents)

lemma remove_makes_room: "inv t \<Longrightarrow> a \<in> contents t \<Longrightarrow> b \<in> contents (add (remove t a) b)"
proof -
  assume i: "inv t" and a: "a \<in> contents t"
  have "card (contents t - {a}) < cap"
    using inv_finite [OF i] a card_Diff1_less [of "contents t" a] by simp
  with i show ?thesis by (simp add: add_contents remove_contents remove_inv)
qed

end

definition break_at :: "u16 list \<Rightarrow> u16 \<Rightarrow> u16 list" where
  "break_at bps a = (if a \<in> set bps \<or> length bps = DEBUGGER_MAX_BREAKPOINTS then bps else bps @ [a])"

definition delete_at :: "u16 list \<Rightarrow> u16 \<Rightarrow> u16 list" where
  "delete_at bps a = (case breakpoint_index bps a of Some i \<Rightarrow> butlast (bps[i := last bps]) | None \<Rightarrow> bps)"

definition bps_inv :: "u16 list \<Rightarrow> bool" where
  "bps_inv bps \<longleftrightarrow> distinct bps \<and> length bps \<le> DEBUGGER_MAX_BREAKPOINTS"

lemma breakpoint_index_Some:
  "breakpoint_index bps a = Some i \<Longrightarrow> i < length bps \<and> bps ! i = a"
  by (induction bps arbitrary: i) (auto split: if_split_asm)

lemma breakpoint_index_None: "breakpoint_index bps a = None \<longleftrightarrow> a \<notin> set bps"
  by (induction bps) auto

lemma swap_last:
  assumes "distinct bps" "i < length bps"
  shows "set (butlast (bps[i := last bps])) = set bps - {bps ! i}" "distinct (butlast (bps[i := last bps]))"
proof -
  obtain xs l where b: "bps = xs @ [l]" using assms(2) by (cases bps rule: rev_cases) auto
  have "set (butlast (bps[i := last bps])) = set bps - {bps ! i} \<and> distinct (butlast (bps[i := last bps]))"
  proof (cases "i = length xs")
    case True
    then show ?thesis using assms(1) by (auto simp: b)
  next
    case False
    then have "i < length xs" using assms(2) b by simp
    then show ?thesis
      using assms(1) by (auto simp: b list_update_append nth_append set_update_distinct distinct_list_update butlast_append)
  qed
  then show "set (butlast (bps[i := last bps])) = set bps - {bps ! i}" "distinct (butlast (bps[i := last bps]))" by auto
qed

interpretation bps: bounded_set set break_at delete_at bps_inv DEBUGGER_MAX_BREAKPOINTS
proof
  fix bps :: "u16 list" and a :: u16
  assume inv: "bps_inv bps"
  then have d: "distinct bps" "length bps \<le> DEBUGGER_MAX_BREAKPOINTS" "card (set bps) = length bps"
    by (auto simp: bps_inv_def distinct_card)
  show "set (break_at bps a) = (if card (set bps) < DEBUGGER_MAX_BREAKPOINTS then insert a (set bps) else set bps)"
    using d by (auto simp: break_at_def)
  show "bps_inv (break_at bps a)" using d by (auto simp: bps_inv_def break_at_def)
  show "finite (set bps) \<and> card (set bps) \<le> DEBUGGER_MAX_BREAKPOINTS" using d by simp
  have del: "set (delete_at bps a) = set bps - {a} \<and> distinct (delete_at bps a) \<and> length (delete_at bps a) \<le> length bps"
    using breakpoint_index_Some [of bps a] breakpoint_index_None [of bps a] swap_last [OF d(1)] d(1)
    by (auto simp: delete_at_def split: option.split)
  then show "set (delete_at bps a) = set bps - {a}" "bps_inv (delete_at bps a)" using d by (auto simp: bps_inv_def)
qed

lemma dbg_inv_alt: "dbg_inv dbg \<longleftrightarrow> vm_inv (dbg_vm dbg) \<and> bps_inv (dbg_breakpoints dbg)"
  by (simp add: dbg_inv_def bps_inv_def)

lemma cmd_break_run:
  assumes "dbg_inv dbg" "parse_number arg = Some addr"
  shows "\<exists>s. cmd_break dbg arg h = Some (dbg\<lparr>dbg_breakpoints := break_at (dbg_breakpoints dbg) (of_int addr)\<rparr>, putstr h s)"
  using assms by (auto simp: cmd_break_def break_at_def dbg_inv_def)

lemma cmd_delete_run:
  assumes "parse_number arg = Some addr"
  shows "\<exists>s. cmd_delete dbg arg h = Some (dbg\<lparr>dbg_breakpoints := delete_at (dbg_breakpoints dbg) (of_int addr)\<rparr>, putstr h s)"
  using assms by (auto simp: cmd_delete_def delete_at_def split: option.split)

subsection \<open>Every command completes\<close>

lemma hex_dump_out: "\<exists>s. hex_dump mem addr count i h = putstr h s"
proof (induction mem addr count i h rule: hex_dump.induct)
  case (1 mem addr count i h)
  show ?case
  proof (cases "i < count")
    case True
    with 1 obtain s where "hex_dump mem addr count (i + 16) (putstr h (dump_row mem addr count i)) =
      putstr (putstr h (dump_row mem addr count i)) s" by blast
    with True show ?thesis by (auto simp: hex_dump.simps [of mem addr count i])
  next
    case False
    then show ?thesis by (intro exI [of _ "[]"]) (simp add: hex_dump.simps [of mem addr count i] putstr_def)
  qed
qed

lemma disassemble_lines_out: "\<exists>s. disassemble_lines n vm pc h = Some (putstr h s)"
proof (induction n arbitrary: pc h)
  case 0
  show ?case by (intro exI [of _ "[]"]) (simp add: putstr_def)
next
  case (Suc n)
  obtain ok str nxt where d: "disassemble_one (vm_memory vm) pc 128 = Some (ok, str, nxt)"
    using disassemble_one_total by blast
  have "\<exists>s. disassemble_lines n vm nxt (putstr h t) = Some (putstr h (t @ s))" for t
    using Suc.IH [of nxt "putstr h t"] by simp
  with d show ?case by auto
qed

lemma step_loop_stops:
  assumes "vm_inv vm"
  shows "\<exists>k vm' h'. step_loop n vm h = Some (vm', h') \<and> vm_inv vm' \<and> stops_at machine_step halted_state n k (vm, h) (vm', h')"
  using vm_machine.run_until_total [of "(vm, h)" halted_state n] assms by (auto simp: step_loop_run)

lemma stops_at_input: "stops_at machine_step stop n k (vm, h) (vm', h') \<Longrightarrow> length (host_in h') \<le> length (host_in h)"
  using iter_input [of k "(vm, h)"] by (auto simp: stops_at_def)

lemma cmd_step_run:
  assumes "vm_inv (dbg_vm dbg)" "(if arg = None then Some 1 else parse_number arg) = Some n"
  shows "\<exists>k vm' h' s. cmd_step dbg arg h = Some (dbg\<lparr>dbg_vm := vm'\<rparr>, putstr h' s) \<and> vm_inv vm' \<and>
    stops_at machine_step halted_state (nat n) k (dbg_vm dbg, h) (vm', h')"
proof -
  from step_loop_stops [OF assms(1), of "nat n" h] obtain k vm' h' where
    k: "step_loop (nat n) (dbg_vm dbg) h = Some (vm', h')" "vm_inv vm'"
    "stops_at machine_step halted_state (nat n) k (dbg_vm dbg, h) (vm', h')" by blast
  from report_stop_total [of "dbg\<lparr>dbg_vm := vm'\<rparr>" h'] obtain s where
    "report_stop (dbg\<lparr>dbg_vm := vm'\<rparr>) h' = Some (putstr h' s)" by blast
  with k assms(2) show ?thesis by (auto simp: cmd_step_def simp del: One_nat_def split: if_split_asm)
qed

lemma cmd_continue_run:
  assumes "vm_inv (dbg_vm dbg)" "\<not> vm_halted (dbg_vm dbg)"
  shows "\<exists>k r vm1 h1 vm' h' s. vm_step (dbg_vm dbg) h = Some (r, vm1, h1) \<and>
    cmd_continue dbg h = Some (dbg\<lparr>dbg_vm := vm'\<rparr>, putstr h' s) \<and> vm_inv vm' \<and>
    stops_at machine_step (stop_state (dbg_breakpoints dbg)) (CONTINUE_STEP_LIMIT - 1) k (vm1, h1) (vm', h')"
proof -
  from vm_step_inv [OF assms(1), of h] obtain r vm1 h1 where s1: "vm_step (dbg_vm dbg) h = Some (r, vm1, h1)" "vm_inv vm1" by blast
  from continue_loop_stops [OF s1(2), of "dbg_breakpoints dbg" 1 h1] obtain k hit vm' h' where
    k: "continue_loop (dbg_breakpoints dbg) 1 vm1 h1 = Some (hit, vm', h')" "vm_inv vm'"
    "stops_at machine_step (stop_state (dbg_breakpoints dbg)) (CONTINUE_STEP_LIMIT - 1) k (vm1, h1) (vm', h')" by blast
  have "\<exists>s'. report_stop (dbg\<lparr>dbg_vm := vm'\<rparr>) (putstr h' s) = Some (putstr h' (s @ s'))"
    "\<exists>s'. report_stop (dbg\<lparr>dbg_vm := vm'\<rparr>) h' = Some (putstr h' s')" for s
    using report_stop_total [of "dbg\<lparr>dbg_vm := vm'\<rparr>" "putstr h' s"] report_stop_total [of "dbg\<lparr>dbg_vm := vm'\<rparr>" h'] by simp_all
  then have "\<exists>s. cmd_continue dbg h = Some (dbg\<lparr>dbg_vm := vm'\<rparr>, putstr h' s)"
    using assms(2) s1(1) k(1) by (auto simp: cmd_continue_def Let_def)
  with s1 k show ?thesis by blast
qed

lemma cmd_reset_run:
  "\<exists>vm' s. cmd_reset dbg h = Some (dbg\<lparr>dbg_vm := vm'\<rparr>, putstr h s) \<and>
     vm' = (if header_ok (dbg_image dbg) then image_start (dbg_image dbg) else dbg_vm dbg)"
  by (cases "header_ok (dbg_image dbg)") (auto simp: cmd_reset_def loader.load_good loader.load_bad)

lemma cmd_oks:
  assumes inv: "dbg_inv dbg"
  shows "cmd_ok dbg h (cmd_registers dbg h)" "cmd_ok dbg h (cmd_step dbg arg h)" "cmd_ok dbg h (cmd_continue dbg h)"
    "cmd_ok dbg h (cmd_break dbg arg h)" "cmd_ok dbg h (cmd_delete dbg arg h)" "cmd_ok dbg h (cmd_memory dbg arg arg2 h)"
    "cmd_ok dbg h (cmd_stack dbg h)" "cmd_ok dbg h (cmd_disassemble dbg arg arg2 h)" "cmd_ok dbg h (cmd_reset dbg h)"
proof -
  have vm: "vm_inv (dbg_vm dbg)" "bps_inv (dbg_breakpoints dbg)" using inv by (simp_all add: dbg_inv_alt)
  have upd: "cmd_ok dbg h (Some (dbg\<lparr>dbg_vm := vm'\<rparr>, putstr h' s))"
    if "vm_inv vm'" "length (host_in h') \<le> length (host_in h)" for vm' h' s
    using that vm(2) by (simp add: cmd_ok_def dbg_inv_alt)
  have bps: "cmd_ok dbg h (Some (dbg\<lparr>dbg_breakpoints := b\<rparr>, putstr h s))" if "bps_inv b" for b s
    using that vm(1) by (simp add: cmd_ok_def dbg_inv_alt)
  have dump: "cmd_ok dbg h (Some (dbg, hex_dump mem a n i (putstr h t)))" "cmd_ok dbg h (Some (dbg, hex_dump mem a n i h))" for mem a n i t
    using hex_dump_out [of mem a n i "putstr h t"] hex_dump_out [of mem a n i h] inv by auto
  show "cmd_ok dbg h (cmd_registers dbg h)" using cmd_registers_ok [OF inv, of h] inv by auto
  show "cmd_ok dbg h (cmd_step dbg arg h)"
  proof (cases "if arg = None then Some 1 else parse_number arg")
    case None
    then show ?thesis using inv by (simp add: cmd_step_def)
  next
    case (Some n)
    from cmd_step_run [OF vm(1) Some, of h] show ?thesis using upd stops_at_input by fastforce
  qed
  show "cmd_ok dbg h (cmd_continue dbg h)"
  proof (cases "vm_halted (dbg_vm dbg)")
    case True
    then show ?thesis using inv by (simp add: cmd_continue_def)
  next
    case False
    from cmd_continue_run [OF vm(1) False, of h] obtain k r vm1 h1 vm' h' s where
      c: "vm_step (dbg_vm dbg) h = Some (r, vm1, h1)" "cmd_continue dbg h = Some (dbg\<lparr>dbg_vm := vm'\<rparr>, putstr h' s)" "vm_inv vm'"
      "stops_at machine_step (stop_state (dbg_breakpoints dbg)) (CONTINUE_STEP_LIMIT - 1) k (vm1, h1) (vm', h')" by blast
    with upd [OF c(3)] stops_at_input [OF c(4)] vm_step_input [OF c(1)] show ?thesis by simp
  qed
  show "cmd_ok dbg h (cmd_break dbg arg h)"
    using inv cmd_break_run [OF inv, of arg _ h] bps [OF bps.add_inv [OF vm(2)]]
    by (cases "parse_number arg") (fastforce simp: cmd_break_def)+
  show "cmd_ok dbg h (cmd_delete dbg arg h)"
    using inv cmd_delete_run [of arg _ dbg h] bps [OF bps.remove_inv [OF vm(2)]]
    by (cases "parse_number arg") (fastforce simp: cmd_delete_def)+
  show "cmd_ok dbg h (cmd_memory dbg arg arg2 h)"
    using inv dump by (simp add: cmd_memory_def Let_def split: option.split)
  show "cmd_ok dbg h (cmd_stack dbg h)"
    using inv dump by (simp add: cmd_stack_def Let_def)
  have lines: "cmd_ok dbg h (do { h \<leftarrow> disassemble_lines n (dbg_vm dbg) a h; Some (dbg, h) })" for n a
    using disassemble_lines_out [of n "dbg_vm dbg" a h] inv by auto
  show "cmd_ok dbg h (cmd_disassemble dbg arg arg2 h)"
    using inv lines by (simp add: cmd_disassemble_def Let_def split: option.split)
  show "cmd_ok dbg h (cmd_reset dbg h)"
    using cmd_reset_run [of dbg h] upd [of _ h] vm(1) loader.start_inv by (fastforce split: if_split_asm)
qed

lemma cmd_ok_if: "(b \<Longrightarrow> cmd_ok dbg h x) \<Longrightarrow> (\<not> b \<Longrightarrow> cmd_ok dbg h y) \<Longrightarrow> cmd_ok dbg h (if b then x else y)"
  by simp

lemma debugger_execute_ok:
  assumes "dbg_inv dbg"
  shows "\<exists>go_on dbg' h'. debugger_execute dbg line h = Some (go_on, dbg', h') \<and> dbg_inv dbg' \<and>
    dbg_image dbg' = dbg_image dbg \<and> length (host_in h') \<le> length (host_in h)"
proof -
  obtain cmd p where t1: "strtok (snprintf 256 (cstr line)) = (cmd, p)" by (cases "strtok (snprintf 256 (cstr line))")
  obtain arg1 p1 where t2: "strtok p = (arg1, p1)" by (cases "strtok p")
  obtain arg2 p2 where t3: "strtok p1 = (arg2, p2)" by (cases "strtok p1")
  have wrap: "\<exists>go_on dbg' h'. map_option (\<lambda>r. (True, r)) x = Some (go_on, dbg', h') \<and> dbg_inv dbg' \<and>
    dbg_image dbg' = dbg_image dbg \<and> length (host_in h') \<le> length (host_in h)" if "cmd_ok dbg h x" for x
    using that by (auto simp: cmd_ok_def)
  show ?thesis
  proof (cases cmd)
    case None
    then show ?thesis using assms by (simp add: debugger_execute_def t1)
  next
    case (Some c)
    show ?thesis
    proof (cases "c = ''quit'' \<or> c = ''q''")
      case True
      then have "debugger_execute dbg line h = Some (False, dbg\<lparr>dbg_quit_requested := True\<rparr>, h)"
        using Some by (simp add: debugger_execute_def t1 t2 t3)
      then show ?thesis using assms by (auto simp: dbg_inv_def)
    next
      case False
      show ?thesis
        unfolding debugger_execute_def t1 Let_def prod.case Some option.case t2 t3 if_not_P [OF False]
        by (intro wrap cmd_ok_if cmd_oks cmd_ok_print assms)
    qed
  qed
qed

text \<open>
  C22: the debugger never fails. In a session whose machine satisfies its invariant, with at most
  64 distinct breakpoints, every command line, however malformed or long, is executed to its
  end without undefined behaviour (no access outside the register or breakpoint array), keeps
  the invariant and the image, and only moves forward in the console input.
\<close>

theorem debugger_execute_total:
  assumes "dbg_inv dbg"
  shows "\<exists>go_on dbg' h'. debugger_execute dbg line h = Some (go_on, dbg', h') \<and> dbg_inv dbg' \<and>
    dbg_image dbg' = dbg_image dbg \<and> length (host_in h') \<le> length (host_in h)"
  by (rule debugger_execute_ok [OF assms])

definition fresh_debugger :: Debugger where
  "fresh_debugger = debugger_init (machine_with []) sample_image"

lemma fresh_debugger_inv: "dbg_inv fresh_debugger"
  using machine_with_inv [of "[]"] by (simp add: fresh_debugger_def debugger_init_def dbg_inv_def)

theorem debugger_execute_total_witness:
  "\<exists>go_on dbg' h'. debugger_execute fresh_debugger ''break zz'' \<lparr>host_in = [], host_out = []\<rparr> = Some (go_on, dbg', h') \<and>
     dbg_inv dbg' \<and> host_in h' = []"
  using debugger_execute_total [OF fresh_debugger_inv, of "''break zz''" "\<lparr>host_in = [], host_out = []\<rparr>"] by auto

lemma repl_loop_ends: "dbg_inv dbg \<Longrightarrow> \<exists>dbg' h'. repl_loop dbg h = Some (dbg', h') \<and> dbg_inv dbg' \<and> dbg_image dbg' = dbg_image dbg"
proof (induction "length (host_in h)" arbitrary: dbg h rule: less_induct)
  case less
  let ?h = "putstr h ''(bytevm) ''"
  show ?case
  proof (cases "fgets 256 (host_in ?h)")
    case None
    then show ?thesis using less.prems by (simp add: repl_loop.simps [of dbg h])
  next
    case (Some lr)
    then obtain line rest where l: "fgets 256 (host_in ?h) = Some (line, rest)" by (cases lr) auto
    from debugger_execute_ok [OF less.prems, of line "?h\<lparr>host_in := rest\<rparr>"] obtain go_on dbg1 h1 where
      e: "debugger_execute dbg line (?h\<lparr>host_in := rest\<rparr>) = Some (go_on, dbg1, h1)" "dbg_inv dbg1"
      "dbg_image dbg1 = dbg_image dbg" "length (host_in h1) \<le> length rest" by auto
    have "length (host_in h1) < length (host_in h)" using fgets_shorter [OF _ l] e(4) by simp
    from less.hyps [OF this e(2)] e l show ?thesis
      by (cases go_on) (simp_all add: repl_loop.simps [of dbg h])
  qed
qed

text \<open>
  C25: a debugger session ends. Whatever the console input is, the command loop returns after
  finitely many commands (at quit or at the end of the input), although the debugged program
  may read from the same input; the machine still satisfies its invariant.
\<close>

theorem debugger_repl_ends:
  assumes "dbg_inv dbg"
  shows "\<exists>dbg' h'. debugger_repl dbg h = Some (dbg', h') \<and> dbg_inv dbg' \<and> dbg_image dbg' = dbg_image dbg"
  using report_stop_total [of dbg] repl_loop_ends [OF assms] by (fastforce simp: debugger_repl_def)

theorem debugger_repl_ends_witness:
  "\<exists>dbg' h'. debugger_repl fresh_debugger \<lparr>host_in = ''c'', host_out = []\<rparr> = Some (dbg', h')"
  using debugger_repl_ends [OF fresh_debugger_inv] by blast

subsection \<open>Running under the debugger\<close>

text \<open>
  C21: continue runs to the first stop. From a machine that is not halted it executes at least
  one instruction, even at a breakpoint, and then stops in the first state that is halted or
  whose PC is a breakpoint (that instruction not executed), or after 10000000 steps; only the
  machine changes in the debugger.
\<close>

theorem continue_stops:
  assumes "dbg_inv dbg" "\<not> vm_halted (dbg_vm dbg)"
  shows "\<exists>k vm' h' s. cmd_continue dbg h = Some (dbg\<lparr>dbg_vm := vm'\<rparr>, putstr h' s) \<and>
    1 \<le> k \<and> k \<le> CONTINUE_STEP_LIMIT \<and> iter_step machine_step k (dbg_vm dbg, h) = Some (vm', h') \<and>
    (\<forall>j. 1 \<le> j \<and> j < k \<longrightarrow> (\<exists>vmj hj. iter_step machine_step j (dbg_vm dbg, h) = Some (vmj, hj) \<and>
       \<not> vm_halted vmj \<and> cpu_pc (vm_cpu vmj) \<notin> set (dbg_breakpoints dbg))) \<and>
    (vm_halted vm' \<or> cpu_pc (vm_cpu vm') \<in> set (dbg_breakpoints dbg) \<or> k = CONTINUE_STEP_LIMIT)"
proof -
  have "vm_inv (dbg_vm dbg)" using assms(1) by (simp add: dbg_inv_def)
  from cmd_continue_run [OF this assms(2), of h] obtain k r vm1 h1 vm' h' s where
    c: "vm_step (dbg_vm dbg) h = Some (r, vm1, h1)" "cmd_continue dbg h = Some (dbg\<lparr>dbg_vm := vm'\<rparr>, putstr h' s)"
    "stops_at machine_step (stop_state (dbg_breakpoints dbg)) (CONTINUE_STEP_LIMIT - 1) k (vm1, h1) (vm', h')" by blast
  have shift: "iter_step machine_step (Suc j) (dbg_vm dbg, h) = iter_step machine_step j (vm1, h1)" for j
    using c(1) by (simp add: machine_step_def [of "(dbg_vm dbg, h)"])
  have st: "iter_step machine_step k (vm1, h1) = Some (vm', h')" "k \<le> CONTINUE_STEP_LIMIT - 1"
    "stop_state (dbg_breakpoints dbg) (vm', h') \<or> k = CONTINUE_STEP_LIMIT - 1"
    "\<And>j. j < k \<Longrightarrow> \<exists>t. iter_step machine_step j (vm1, h1) = Some t \<and> \<not> stop_state (dbg_breakpoints dbg) t"
    using c(3) by (auto simp: stops_at_def)
  have "\<exists>vmj hj. iter_step machine_step j (dbg_vm dbg, h) = Some (vmj, hj) \<and>
      \<not> vm_halted vmj \<and> cpu_pc (vm_cpu vmj) \<notin> set (dbg_breakpoints dbg)" if "1 \<le> j" "j < Suc k" for j
    using that st(4) [of "j - 1"] shift [of "j - 1"] by (auto simp: stop_state_def)
  moreover have "Suc k \<le> CONTINUE_STEP_LIMIT"
    using st(2) by (simp add: CONTINUE_STEP_LIMIT_def)
  ultimately show ?thesis
    using c(2) shift [of k] st(1,3)
    by (intro exI [of _ "Suc k"] exI [of _ vm'] exI [of _ h'] exI [of _ s])
      (auto simp: stop_state_def CONTINUE_STEP_LIMIT_def simp del: iter_step.simps)
qed

theorem continue_stops_witness:
  "\<exists>k vm' h' s. cmd_continue fresh_debugger \<lparr>host_in = [], host_out = []\<rparr> = Some (fresh_debugger\<lparr>dbg_vm := vm'\<rparr>, putstr h' s) \<and>
     1 \<le> k \<and> k \<le> CONTINUE_STEP_LIMIT"
proof -
  have "\<not> vm_halted (dbg_vm fresh_debugger)" by (simp add: fresh_debugger_def debugger_init_def machine_with_def)
  from continue_stops [OF fresh_debugger_inv this, of "\<lparr>host_in = [], host_out = []\<rparr>"] show ?thesis by blast
qed

text \<open>
  C29: step n executes n instructions, or fewer if the machine halts before, and nothing else:
  it does not stop at breakpoints.
\<close>

theorem step_counts:
  assumes "dbg_inv dbg" "parse_number arg = Some n"
  shows "\<exists>k vm' h' s. cmd_step dbg arg h = Some (dbg\<lparr>dbg_vm := vm'\<rparr>, putstr h' s) \<and> k \<le> nat n \<and>
    iter_step machine_step k (dbg_vm dbg, h) = Some (vm', h') \<and> (k < nat n \<longrightarrow> vm_halted vm') \<and>
    (\<forall>j < k. \<exists>vmj hj. iter_step machine_step j (dbg_vm dbg, h) = Some (vmj, hj) \<and> \<not> vm_halted vmj)"
proof -
  have inv: "vm_inv (dbg_vm dbg)" using assms(1) by (simp add: dbg_inv_def)
  have arg: "(if arg = None then Some 1 else parse_number arg) = Some n"
    using assms(2) by (auto simp: parse_number_def)
  from cmd_step_run [OF inv arg, of h] obtain k vm' h' s where
    c: "cmd_step dbg arg h = Some (dbg\<lparr>dbg_vm := vm'\<rparr>, putstr h' s)"
    "stops_at machine_step halted_state (nat n) k (dbg_vm dbg, h) (vm', h')" by blast
  have "\<exists>vmj hj. iter_step machine_step j (dbg_vm dbg, h) = Some (vmj, hj) \<and> \<not> vm_halted vmj" if "j < k" for j
    using that c(2) by (auto simp: stops_at_def halted_state_def)
  with c show ?thesis
    by (intro exI [of _ k] exI [of _ vm'] exI [of _ h'] exI [of _ s]) (auto simp: stops_at_def halted_state_def)
qed

lemma parse_ten: "parse_number (Some ''10'') = Some 10" "parse_number (Some ''0x1F'') = Some 31"
  by (code_simp)+

theorem step_counts_witness:
  "\<exists>k vm' h' s. cmd_step fresh_debugger (Some ''10'') \<lparr>host_in = [], host_out = []\<rparr> =
     Some (fresh_debugger\<lparr>dbg_vm := vm'\<rparr>, putstr h' s) \<and> k \<le> nat 10 \<and> (k < nat 10 \<longrightarrow> vm_halted vm')"
  using step_counts [OF fresh_debugger_inv parse_ten(1), of "\<lparr>host_in = [], host_out = []\<rparr>"] by blast

text \<open>
  C24: break and delete keep the breakpoints as a set of at most 64 addresses. break adds its
  address unless the set is full, delete removes exactly its address (although it moves the
  last entry into the gap), and neither touches the machine; a full set has room again
  after any delete of a member.
\<close>

theorem breakpoint_set:
  assumes "dbg_inv dbg" "parse_number arg = Some n"
  shows "(\<exists>bps s. cmd_break dbg arg h = Some (dbg\<lparr>dbg_breakpoints := bps\<rparr>, putstr h s) \<and> distinct bps \<and>
      set bps = (if card (set (dbg_breakpoints dbg)) < 64 then insert (of_int n) (set (dbg_breakpoints dbg))
                 else set (dbg_breakpoints dbg))) \<and>
    (\<exists>bps s. cmd_delete dbg arg h = Some (dbg\<lparr>dbg_breakpoints := bps\<rparr>, putstr h s) \<and> distinct bps \<and>
      set bps = set (dbg_breakpoints dbg) - {of_int n} \<and>
      (of_int n \<in> set (dbg_breakpoints dbg) \<longrightarrow> card (set bps) < 64))"
proof -
  let ?b = "dbg_breakpoints dbg"
  have inv: "bps_inv ?b" using assms(1) by (simp add: dbg_inv_alt)
  have cap: "DEBUGGER_MAX_BREAKPOINTS = 64" by (simp add: DEBUGGER_MAX_BREAKPOINTS_def)
  have "card (set ?b - {a}) < 64" if "a \<in> set ?b" for a
    using bps.inv_finite [OF inv] that card_Diff1_less [of "set ?b" a] by (simp add: cap)
  then show ?thesis
    using cmd_break_run [OF assms, of h] cmd_delete_run [OF assms(2), of dbg h] bps.add_contents [OF inv]
      bps.remove_contents [OF inv] bps.add_inv [OF inv] bps.remove_inv [OF inv]
    by (fastforce simp: cap bps_inv_def)
qed

theorem breakpoint_set_witness:
  "\<exists>bps s. cmd_break fresh_debugger (Some ''0x1F'') \<lparr>host_in = [], host_out = []\<rparr> =
     Some (fresh_debugger\<lparr>dbg_breakpoints := bps\<rparr>, putstr \<lparr>host_in = [], host_out = []\<rparr> s) \<and> set bps = {31}"
  using breakpoint_set [OF fresh_debugger_inv parse_ten(2), of "\<lparr>host_in = [], host_out = []\<rparr>"]
  by (simp add: fresh_debugger_def debugger_init_def) blast

subsection \<open>Reset\<close>

inductive dbg_reaches :: "Debugger \<Rightarrow> Host \<Rightarrow> Debugger \<Rightarrow> Host \<Rightarrow> bool" where
  session_start: "dbg_reaches dbg h dbg h"
| session_line: "dbg_reaches dbg h dbg1 h1 \<Longrightarrow> debugger_execute dbg1 line (h1\<lparr>host_in := rest\<rparr>) = Some (go_on, dbg2, h2) \<Longrightarrow>
     dbg_reaches dbg h dbg2 h2"

inductive_simps dbg_reaches_simps: "dbg_reaches dbg h dbg' h'"

lemma dbg_reaches_keeps: "dbg_reaches dbg h dbg' h' \<Longrightarrow> dbg_inv dbg \<Longrightarrow> dbg_inv dbg' \<and> dbg_image dbg' = dbg_image dbg"
proof (induction rule: dbg_reaches.induct)
  case (session_line dbg h dbg1 h1 line rest go_on dbg2 h2)
  then show ?case using debugger_execute_ok [of dbg1 line "h1\<lparr>host_in := rest\<rparr>"] by auto
qed simp

lemma reset_words: "strtok (snprintf 256 (cstr ''reset'')) = (Some ''reset'', [])" "strtok [] = (None, [])"
  by (code_simp)+

lemma execute_reset: "debugger_execute dbg ''reset'' h = map_option (\<lambda>r. (True, r)) (cmd_reset dbg h)"
  by (simp add: debugger_execute_def reset_words)

text \<open>
  C23: reset restores the machine as it was loaded. In a session on an image that loads, after
  any sequence of commands (steps, self-modifying code, halts, further resets), reset succeeds
  and gives exactly the machine the first load gave, keeping the breakpoints.
\<close>

theorem reset_restores:
  assumes "vm_load vm0 img = Some (VM_OK, vm)" "dbg_reaches (debugger_init vm img) h dbg h1"
  shows "\<exists>s. debugger_execute dbg ''reset'' h2 = Some (True, dbg\<lparr>dbg_vm := vm\<rparr>, putstr h2 s)"
proof -
  have ok: "header_ok img" "vm = image_start img" using assms(1) by (auto simp: loader.load_ok_iff)
  have "dbg_inv (debugger_init vm img)"
    using loader.start_inv ok by (simp add: debugger_init_def dbg_inv_def)
  from dbg_reaches_keeps [OF assms(2) this] have "dbg_image dbg = img" by (simp add: debugger_init_def)
  with cmd_reset_run [of dbg h2] ok show ?thesis by (auto simp: execute_reset)
qed

theorem reset_restores_witness:
  "\<exists>vm s. vm_load (machine_with []) sample_image = Some (VM_OK, vm) \<and>
     debugger_execute (debugger_init vm sample_image) ''reset'' \<lparr>host_in = [], host_out = []\<rparr> =
       Some (True, debugger_init vm sample_image, putstr \<lparr>host_in = [], host_out = []\<rparr> s)"
  using reset_restores [OF sample_image_load session_start, where ?h2.0 = "\<lparr>host_in = [], host_out = []\<rparr>"] sample_image_load
  by (simp add: debugger_init_def)

subsection \<open>Commands that only look\<close>

definition looks :: "Debugger \<Rightarrow> Host \<Rightarrow> session \<Rightarrow> bool" where
  "looks dbg h r \<longleftrightarrow> (\<exists>bps s. r = Some (dbg\<lparr>dbg_breakpoints := bps\<rparr>, putstr h s))"

lemma looks_bps: "looks dbg h (Some (dbg\<lparr>dbg_breakpoints := b\<rparr>, putstr h s))"
  by (auto simp: looks_def)

lemma looks_print [simp]: "looks dbg h (Some (dbg, putstr h s))"
  using looks_bps [of dbg h "dbg_breakpoints dbg" s] by simp

lemma looks_if: "(b \<Longrightarrow> looks dbg h x) \<Longrightarrow> (\<not> b \<Longrightarrow> looks dbg h y) \<Longrightarrow> looks dbg h (if b then x else y)"
  by simp

lemma looks_cmds:
  assumes "dbg_inv dbg"
  shows "looks dbg h (cmd_registers dbg h)" "looks dbg h (cmd_break dbg arg h)" "looks dbg h (cmd_delete dbg arg h)"
    "looks dbg h (cmd_memory dbg arg arg2 h)" "looks dbg h (cmd_stack dbg h)" "looks dbg h (cmd_disassemble dbg arg arg2 h)"
proof -
  have dump: "looks dbg h (Some (dbg, hex_dump mem a n i (putstr h t)))" "looks dbg h (Some (dbg, hex_dump mem a n i h))" for mem a n i t
    using hex_dump_out [of mem a n i "putstr h t"] hex_dump_out [of mem a n i h] by auto
  have lines: "looks dbg h (do { h \<leftarrow> disassemble_lines n (dbg_vm dbg) a h; Some (dbg, h) })" for n a
    using disassemble_lines_out [of n "dbg_vm dbg" a h] by auto
  show "looks dbg h (cmd_registers dbg h)" using cmd_registers_ok [OF assms, of h] by auto
  have "looks dbg h (cmd_break dbg arg h) \<and> looks dbg h (cmd_delete dbg arg h)"
  proof (cases "parse_number arg")
    case (Some a)
    from cmd_break_run [OF assms Some, of h] cmd_delete_run [OF Some, of dbg h] show ?thesis by (auto simp: looks_bps)
  qed (simp add: cmd_break_def cmd_delete_def)
  then show "looks dbg h (cmd_break dbg arg h)" "looks dbg h (cmd_delete dbg arg h)" by simp_all
  show "looks dbg h (cmd_memory dbg arg arg2 h)"
    using dump by (simp add: cmd_memory_def Let_def split: option.split)
  show "looks dbg h (cmd_stack dbg h)" using dump by (simp add: cmd_stack_def Let_def)
  show "looks dbg h (cmd_disassemble dbg arg arg2 h)"
    using lines by (simp add: cmd_disassemble_def Let_def split: option.split)
qed

definition command_word :: "string \<Rightarrow> string option" where
  "command_word line = fst (strtok (snprintf 256 (cstr line)))"

text \<open>
  C28: looking does not disturb. A command line whose first word is none of step, continue and
  reset (or their short forms), be it a valid command or not, leaves the machine and the
  console input exactly as they were.
\<close>

theorem inspection_keeps_machine:
  assumes "dbg_inv dbg" "command_word line \<notin> Some ` {''step'', ''s'', ''continue'', ''c'', ''reset''}"
    and "debugger_execute dbg line h = Some (go_on, dbg', h')"
  shows "dbg_vm dbg' = dbg_vm dbg \<and> host_in h' = host_in h"
proof -
  obtain cmd p where t1: "strtok (snprintf 256 (cstr line)) = (cmd, p)" by (cases "strtok (snprintf 256 (cstr line))")
  obtain arg1 p1 where t2: "strtok p = (arg1, p1)" by (cases "strtok p")
  obtain arg2 p2 where t3: "strtok p1 = (arg2, p2)" by (cases "strtok p1")
  show ?thesis
  proof (cases cmd)
    case None
    then show ?thesis using assms(3) by (auto simp: debugger_execute_def t1)
  next
    case (Some c)
    have ne: "\<not> (c = ''step'' \<or> c = ''s'')" "\<not> (c = ''continue'' \<or> c = ''c'')" "c \<noteq> ''reset''"
      using assms(2) Some by (auto simp: command_word_def t1)
    show ?thesis
    proof (cases "c = ''quit'' \<or> c = ''q''")
      case True
      then show ?thesis using assms(3) Some by (auto simp: debugger_execute_def t1 t2 t3)
    next
      case False
      note unf = debugger_execute_def t1 Let_def prod.case Some option.case t2 t3 if_not_P [OF False]
        if_not_P [OF ne(1)] if_not_P [OF ne(2)] if_not_P [OF ne(3)]
      have "\<exists>r. debugger_execute dbg line h = map_option (\<lambda>r. (True, r)) r \<and> looks dbg h r"
        unfolding unf by (intro exI conjI, rule refl) (intro looks_if looks_cmds looks_print assms(1))
      with assms(3) show ?thesis by (auto simp: looks_def)
    qed
  qed
qed

theorem inspection_keeps_machine_witness:
  "\<exists>go_on dbg' h'. debugger_execute fresh_debugger ''stack'' \<lparr>host_in = ''7'', host_out = []\<rparr> = Some (go_on, dbg', h') \<and>
     dbg_vm dbg' = machine_with [] \<and> host_in h' = ''7''"
proof -
  let ?h = "\<lparr>host_in = ''7'', host_out = []\<rparr>"
  obtain go_on dbg' h' where e: "debugger_execute fresh_debugger ''stack'' ?h = Some (go_on, dbg', h')"
    using debugger_execute_ok [OF fresh_debugger_inv] by blast
  have "command_word ''stack'' = Some ''stack''" by code_simp
  then have "command_word ''stack'' \<notin> Some ` {''step'', ''s'', ''continue'', ''c'', ''reset''}" by simp
  from inspection_keeps_machine [OF fresh_debugger_inv this e] e show ?thesis
    by (auto simp: fresh_debugger_def debugger_init_def)
qed

subsection \<open>Addresses and counts\<close>

lemma digits_value_dec: "list_all is_digit ds \<Longrightarrow> digits_value 10 (int n) ds = int (dec_value n ds)"
proof (induction ds arbitrary: n)
  case (Cons d ds)
  then show ?case using Cons.IH [of "n * 10 + digit_val d"] by (simp add: base_digit_val_def digit_val_def)
qed simp

lemma digits_value_hex: "list_all is_xdigit ds \<Longrightarrow> digits_value 16 (int n) ds = int (hex_value n ds)"
proof (induction ds arbitrary: n)
  case (Cons d ds)
  have "base_digit_val d = hex_val d"
    using Cons.prems by (auto simp: base_digit_val_def hex_val_def ctype_defs Let_def)
  then show ?case using Cons Cons.IH [of "n * 16 + hex_val d"] by simp
qed simp

lemma xdigit_not_space: "is_xdigit c \<Longrightarrow> \<not> is_space c \<and> c \<noteq> CHR ''-'' \<and> c \<noteq> CHR ''+''"
  by (auto simp: is_space_def ctype_defs)

lemma digit_xdigit: "is_digit c \<Longrightarrow> is_xdigit c"
  by (simp add: is_xdigit_def)

lemma clamp_small: "0 \<le> v \<Longrightarrow> v \<le> 0xFFFF \<Longrightarrow> clamp_long v = v"
  by (simp add: clamp_long_def)

lemma strtol_dec: "int n \<le> 0xFFFF \<Longrightarrow> strtol 10 (fmt_u n) = (int n, [])"
proof -
  assume n: "int n \<le> 0xFFFF"
  obtain d ds where d: "show_base 10 n = d # ds" "is_digit d" "list_all is_digit ds" using show_base_cons by blast
  have b: "base_digit 10 = is_digit" by (rule ext) (simp add: base_digit_def)
  note s = xdigit_not_space [OF digit_xdigit [OF d(2)]]
  have "(case d # ds of z # x # e # es \<Rightarrow> if (10 :: nat) = 16 \<and> z = CHR ''0'' \<and> (x = CHR ''x'' \<or> x = CHR ''X'') \<and> is_xdigit e then e # es else d # ds
      | _ \<Rightarrow> d # ds) = d # ds" by (simp split: list.split)
  moreover have tw: "takeWhile is_digit ds = ds" "dropWhile is_digit ds = []"
    using d(3) by (simp_all add: takeWhile_eq_all_conv dropWhile_eq_Nil_conv list_all_iff)
  moreover have "digits_value 10 0 (d # ds) = int n"
    using digits_value_dec [of "d # ds" 0] d dec_value_show_base [of n] by simp
  ultimately show ?thesis using s n d(2) by (simp add: strtol_def fmt_u_def d(1) b Let_def clamp_small tw)
qed

lemma strtol_hex: "int n \<le> 0xFFFF \<Longrightarrow> strtol 16 (''0x'' @ fmt_0X w n) = (int n, [])"
proof -
  assume n: "int n \<le> 0xFFFF"
  obtain d ds where d: "fmt_0X w n = d # ds" "is_xdigit d" "list_all is_xdigit (d # ds)"
    using fmt_0X_hex(2,3) [of w n] by (cases "fmt_0X w n") auto
  have b: "base_digit 16 = is_xdigit" by (rule ext) (simp add: base_digit_def)
  have tw: "takeWhile is_xdigit ds = ds" "dropWhile is_xdigit ds = []"
    using d(3) by (simp_all add: takeWhile_eq_all_conv dropWhile_eq_Nil_conv list_all_iff)
  moreover have "digits_value 16 0 (d # ds) = int n"
    using digits_value_hex [OF d(3), of 0] fmt_0X_hex(1) [of w n] by (simp add: d(1))
  moreover have "\<not> is_space CHR ''0''" by (simp add: is_space_def)
  ultimately show ?thesis using d(2) n by (simp add: strtol_def d(1) b Let_def clamp_small tw)
qed

text \<open>
  C30: an address or count typed in decimal or with 0x is the number meant, and every argument
  the debugger accepts denotes a number from 0 to 65535: the printed decimal and hexadecimal
  forms of every 16-bit value are read back as that value.
\<close>

theorem parse_number_exact:
  "(parse_number arg = Some v \<longrightarrow> 0 \<le> v \<and> v \<le> 0xFFFF) \<and>
   parse_number (Some (fmt_u (unat (w :: u16)))) = Some (uint w) \<and>
   parse_number (Some (''0x'' @ fmt_0X 4 (unat w))) = Some (uint w)"
proof -
  have n: "int (unat w) \<le> 0xFFFF" using uint_lt2p [of w] by simp
  obtain d ds where d: "fmt_u (unat w) = d # ds" "is_digit d" "list_all is_digit ds"
    using show_base_cons [of "unat w"] by (auto simp: fmt_u_def)
  have nox: "\<not> (ds \<noteq> [] \<and> (hd ds = CHR ''x'' \<or> hd ds = CHR ''X''))"
    using d(3) digit_not_x by (cases ds) auto
  have "parse_number (Some (fmt_u (unat w))) = Some (uint w)"
    using strtol_dec [OF n] n nox by (auto simp: parse_number_def d(1))
  moreover have "parse_number (Some (''0x'' @ fmt_0X 4 (unat w))) = Some (uint w)"
    using strtol_hex [OF n, of 4] n by (simp add: parse_number_def)
  ultimately show ?thesis by (auto simp: parse_number_def Let_def split: option.split_asm if_split_asm prod.split_asm)
qed

theorem parse_number_exact_witness:
  "(0 :: int) \<le> 10 \<and> (10 :: int) \<le> 0xFFFF \<and> parse_number (Some (''0x'' @ fmt_0X 4 (unat (0x1F :: u16)))) = Some 0x1F"
  using parse_number_exact [of "Some ''10''" 10 "0x1F"] parse_ten by simp

end
