(* ===== verification/Bvm_Layout.thy ===== *)
theory Bvm_Layout
  imports Bvm_Assembler
begin

text \<open>
  Pass 1 of the assembler is correct (src/assembler/parser.c): it consumes tokens in every
  line and so terminates, it acts on statements, symbols and sections only in four ways
  (\<open>pass1_step\<close>), the statements it builds are well formed, and, when every statement ends
  below 65536, they are laid out one after the other, code before data.
\<close>

unbundle bit_operations_syntax

subsection \<open>Results of the parser\<close>

lemma asm_bind_eq [simp]: "asm_bind m f = Inr y \<longleftrightarrow> (\<exists>x. m = Inr x \<and> f x = Inr y)"
  by (auto simp: asm_bind_def split: sum.splits)

lemma asm_bind_Inr [simp]: "asm_bind (Inr x) f = f x" "asm_bind (Inl e) f = Inl e"
  by (simp_all add: asm_bind_def)

lemma fail_neq [simp]: "fail l m \<noteq> Inr y"
  by (simp add: fail_def)

subsection \<open>Token consumption\<close>

definition eof_last :: "Token list \<Rightarrow> bool" where
  "eof_last ts \<longleftrightarrow> ts \<noteq> [] \<and> tok_type (last ts) = TOK_EOF"

lemma toks_from_eof_last: "toks_from line ts \<Longrightarrow> eof_last ts"
  by (induction ts arbitrary: line) (auto simp: eof_last_def split: if_splits)

lemma advance_ok: "eof_last ts \<Longrightarrow> eof_last (advance ts) \<and> length (advance ts) \<le> length ts"
  by (cases ts) (auto simp: eof_last_def advance_def)

lemma advance_shorter: "eof_last ts \<Longrightarrow> tok_type (cur ts) \<noteq> TOK_EOF \<Longrightarrow> length (advance ts) < length ts"
  by (cases ts; cases "tl ts") (auto simp: eof_last_def advance_def cur_def)

definition consumes :: "Token list \<Rightarrow> Token list \<Rightarrow> bool" where
  "consumes ts ts' \<longleftrightarrow> (eof_last ts \<longrightarrow> eof_last ts' \<and> length ts' \<le> length ts)"

lemma consumes_refl [simp]: "consumes ts ts"
  by (simp add: consumes_def)

lemma consumes_trans: "consumes a b \<Longrightarrow> consumes b c \<Longrightarrow> consumes a c"
  by (auto simp: consumes_def)

lemma consumes_advance [simp]: "consumes ts (advance ts)"
  using advance_ok by (simp add: consumes_def)

lemma consumes_advance_trans: "consumes ts us \<Longrightarrow> consumes ts (advance us)"
  by (rule consumes_trans [OF _ consumes_advance])

lemma parse_operand_consumes: "parse_operand ts c = Inr (p, ts') \<Longrightarrow> consumes ts ts'"
  by (auto simp: parse_operand_def Let_def intro!: consumes_advance_trans
      split: if_split_asm option.split_asm)

lemma parse_operands_consumes: "parse_operands ts c = Inr (n, p, q, ts') \<Longrightarrow> consumes ts ts'"
  by (auto simp: parse_operands_def intro: consumes_trans consumes_advance_trans
      dest!: parse_operand_consumes split: if_split_asm)

text \<open>Inversion of a parsed instruction: it is placed like any other statement.\<close>

definition opcode_modes :: "Opcode \<Rightarrow> u8 \<times> u8" where
  "opcode_modes opcode = (case instruction_opcode_modes opcode of Some ms \<Rightarrow> ms | None \<Rightarrow> (0, 0))"

definition expected_operands :: "Opcode \<Rightarrow> int" where
  "expected_operands opcode =
     (if fst (opcode_modes opcode) = MODE_BIT MODE_NONE then 0
      else if snd (opcode_modes opcode) = MODE_BIT MODE_NONE then 1 else 2)"

definition instruction_statement ::
  "Opcode \<Rightarrow> nat \<Rightarrow> int \<Rightarrow> ParsedOperand \<Rightarrow> ParsedOperand \<Rightarrow> AddrMode \<Rightarrow> AddrMode \<Rightarrow> Statement" where
  "instruction_statement opcode line count op1 op2 m1 m2 =
     statement_zero\<lparr>st_kind := STMT_INSTRUCTION, st_line := line, st_opcode := opcode,
       st_operand_count := count, st_op1 := op1, st_op2 := op2, st_op1_mode := m1, st_op2_mode := m2\<rparr>"

lemma parse_instruction_Inr:
  assumes "parse_instruction_statement stmts sec ts opcode line = Inr r"
  obtains op1 op2 m1 m2 ts' where
    "parse_operands ts opcode = Inr (expected_operands opcode, op1, op2, ts')"
    "statement_mode (expected_operands opcode \<ge> 1) op1 (fst (opcode_modes opcode)) = Inr m1"
    "statement_mode (expected_operands opcode \<ge> 2) op2 (snd (opcode_modes opcode)) = Inr m2"
    "r = place_statement stmts sec ts'
           (instruction_statement opcode line (expected_operands opcode) op1 op2 m1 m2)
           (2 + mode_byte_size m1 + mode_byte_size m2)"
proof -
  obtain ms1 ms2 where ms: "opcode_modes opcode = (ms1, ms2)" by (cases "opcode_modes opcode")
  from assms obtain op1 op2 m1 m2 ts' where
    "parse_operands ts opcode = Inr (expected_operands opcode, op1, op2, ts')"
    "statement_mode (expected_operands opcode \<ge> 1) op1 ms1 = Inr m1"
    "statement_mode (expected_operands opcode \<ge> 2) op2 ms2 = Inr m2"
    "r = place_statement stmts sec ts'
           (instruction_statement opcode line (expected_operands opcode) op1 op2 m1 m2)
           (2 + mode_byte_size m1 + mode_byte_size m2)"
    using ms unfolding parse_instruction_statement_def opcode_modes_def [symmetric]
    by (auto simp: Let_def place_statement_def instruction_statement_def expected_operands_def
        split: if_split_asm)
  with that ms show thesis by auto
qed

lemma place_tokens: "place_statement stmts sec ts st n = (stmts', sec', ts') \<Longrightarrow> ts' = ts"
  by (auto simp: place_statement_def Let_def)

lemma parse_instruction_consumes:
  "parse_instruction_statement stmts sec ts c l = Inr (stmts', sec', ts') \<Longrightarrow> consumes ts ts'"
  by (erule parse_instruction_Inr) (auto dest!: parse_operands_consumes sym [of _ "place_statement _ _ _ _ _"] place_tokens)

lemma parse_directive_consumes:
  "parse_directive_statement stmts sec ts n l = Inr (stmts', sec', ts') \<Longrightarrow> consumes (advance ts) ts'"
  by (auto simp: parse_directive_statement_def parse_org_def parse_data_def parse_string_def parse_word_def
      parse_byte_def place_statement_def Let_def dest!: parse_operand_consumes split: if_split_asm)

lemma parse_line_body_consumes:
  assumes "parse_line_body stmts symtab sec ts = Inr (symtab', stmts', sec', ts')"
  shows "tok_type (cur ts) \<noteq> TOK_EOF" "consumes (advance ts) ts'"
  using assms by (auto simp: parse_line_body_def Let_def dest!: parse_directive_consumes parse_instruction_consumes
      split: if_split_asm option.split_asm)

definition label_statement :: "string \<Rightarrow> nat \<Rightarrow> u16 \<Rightarrow> Statement" where
  "label_statement name line addr =
     statement_zero\<lparr>st_kind := STMT_LABEL, st_line := line, st_label_name := name, st_address := addr\<rparr>"

lemma parse_label_Inr:
  assumes "parse_label stmts symtab sec ts = Inr (Some (stmts', symtab', ts'))"
  shows "stmts' = stmts @ [label_statement (tok_text (cur ts)) (tok_line (cur ts)) (active_cursor sec)]
    \<and> symtab_define symtab (tok_text (cur ts)) (active_cursor sec) = (True, symtab') \<and> ts' = advance (advance ts)"
  using assms
  by (cases "symtab_define symtab (tok_text (cur ts)) (active_cursor sec)")
    (auto simp: parse_label_def Let_def label_statement_def split: if_split_asm)

lemma parse_line_Inr:
  assumes "parse_line stmts symtab sec ts = Inr (symtab', stmts', sec', ts')"
  obtains (body) "parse_line_body stmts symtab sec ts = Inr (symtab', stmts', sec', ts')"
  | (label) "tok_type (cur ts) = TOK_IDENT"
      "symtab_define symtab (tok_text (cur ts)) (active_cursor sec) = (True, symtab')"
      "stmts' = stmts @ [label_statement (tok_text (cur ts)) (tok_line (cur ts)) (active_cursor sec)]"
      "sec' = sec" "ts' = advance (advance ts)"
  | (label_body) symtab1 where "tok_type (cur ts) = TOK_IDENT"
      "symtab_define symtab (tok_text (cur ts)) (active_cursor sec) = (True, symtab1)"
      "parse_line_body (stmts @ [label_statement (tok_text (cur ts)) (tok_line (cur ts)) (active_cursor sec)])
         symtab1 sec (advance (advance ts)) = Inr (symtab', stmts', sec', ts')"
proof (cases "tok_type (cur ts) = TOK_IDENT")
  case True
  with assms obtain l where l: "parse_label stmts symtab sec ts = Inr l"
    and r: "(case l of None \<Rightarrow> parse_line_body stmts symtab sec ts
      | Some (stmts, symtab, ts) \<Rightarrow>
          if tok_type (cur ts) = TOK_NEWLINE \<or> tok_type (cur ts) = TOK_EOF then Inr (symtab, stmts, sec, ts)
          else parse_line_body stmts symtab sec ts) = Inr (symtab', stmts', sec', ts')"
    by (auto simp: parse_line_def)
  show thesis
  proof (cases l)
    case None
    with r body show thesis by simp
  next
    case (Some t)
    obtain stmts1 symtab1 ts1 where t: "t = (stmts1, symtab1, ts1)" by (cases t)
    note p = parse_label_Inr [OF l [unfolded Some t]]
    show thesis
    proof (cases "tok_type (cur ts1) = TOK_NEWLINE \<or> tok_type (cur ts1) = TOK_EOF")
      case end_of_line: True
      then have "symtab' = symtab1 \<and> stmts' = stmts1 \<and> sec' = sec \<and> ts' = ts1" using r unfolding Some t by simp
      with p True show thesis by (intro label) simp_all
    next
      case False
      then have "parse_line_body stmts1 symtab1 sec ts1 = Inr (symtab', stmts', sec', ts')"
        using r unfolding Some t by simp
      with p True show thesis by (intro label_body [of symtab1]) simp_all
    qed
  qed
next
  case False
  with assms body show thesis by (simp add: parse_line_def)
qed

lemma parse_line_consumes:
  assumes "parse_line stmts symtab sec ts = Inr (symtab', stmts', sec', ts')"
  shows "tok_type (cur ts) \<noteq> TOK_EOF \<and> consumes (advance ts) ts'"
  using assms
proof (cases rule: parse_line_Inr)
  case (label_body symtab1)
  have "consumes (advance (advance (advance ts))) ts'" by (rule parse_line_body_consumes(2) [OF label_body(3)])
  then have "consumes (advance ts) ts'"
    by (rule consumes_trans [OF consumes_trans [OF consumes_advance consumes_advance]])
  with label_body(1) show ?thesis by simp
next
  case body
  show ?thesis using parse_line_body_consumes [OF body] by simp
qed simp

lemma build_statements_total:
  assumes "eof_last ts"
  shows "\<exists>r. build_statements stmts symtab sec ts = Some r"
  using assms
proof (induction "length ts" arbitrary: stmts symtab sec ts rule: less_induct)
  case less
  show ?case
  proof (cases "tok_type (cur ts) = TOK_EOF \<or> tok_type (cur ts) = TOK_NEWLINE")
    case True
    with less.hyps [of "advance ts"] less.prems advance_shorter [of ts] advance_ok [of ts] show ?thesis
      by (auto simp: build_statements.simps [of stmts symtab sec ts])
  next
    case False
    show ?thesis
    proof (cases "parse_line stmts symtab sec ts")
      case (Inl e)
      with False show ?thesis by (simp add: build_statements.simps [of stmts symtab sec ts])
    next
      case (Inr r)
      obtain symtab' stmts' sec' ts' where r: "r = (symtab', stmts', sec', ts')" by (cases r) auto
      have "consumes (advance ts) ts'" using parse_line_consumes Inr r by blast
      then have ts': "eof_last ts'" "length ts' < length ts"
        using advance_ok [OF less.prems] advance_shorter [OF less.prems] False by (auto simp: consumes_def)
      have adv: "eof_last (advance ts')" "length (advance ts') < length ts" using advance_ok [OF ts'(1)] ts'(2) by auto
      show ?thesis
        using False Inr r less.hyps [OF ts'(2,1)] less.hyps [OF adv(2,1)]
        by (auto simp: build_statements.simps [of stmts symtab sec ts])
    qed
  qed
qed

lemma assemble_tokens_total: "eof_last ts \<Longrightarrow> \<exists>r. assemble_tokens ts = Some r"
  using build_statements_total [of ts "[]" symtab_init section_zero] by (auto simp: assemble_tokens_def)

text \<open>
  C8: the assembler always terminates: for every source text, lexing, pass 1 over the tokens
  (whose loop stops only at TOK_EOF) and pass 2 end, with an image, an error or an operation
  that C leaves undefined.
\<close>

theorem assemble_total: "\<exists>r. assemble source = Some r"
proof (cases "lex source")
  case (Inr toks)
  then have "eof_last toks"
    using lex_loop_wf [of source 1 "[]"] toks_from_eof_last by (auto simp: lex_ok_iff)
  with Inr assemble_tokens_total show ?thesis by (fastforce simp: assemble_def)
qed (simp add: assemble_def)

subsection \<open>Well-formed statements\<close>

definition defined_modes :: "AddrMode set" where
  "defined_modes = {MODE_NONE, MODE_REG, MODE_IMM16, MODE_MEM_DIRECT, MODE_REG_INDIRECT, MODE_IMM8}"

lemma resolve_operand_mode_ok:
  assumes "resolve_operand_mode op legal = Inr m"
  shows "mode_is_legal m legal" "m \<noteq> MODE_NONE" "m \<in> defined_modes"
    "m \<in> {MODE_REG, MODE_REG_INDIRECT} \<Longrightarrow>
       po_kind op \<in> {OPKIND_REG, OPKIND_REG_INDIRECT} \<and> 0 \<le> po_reg_index op \<and> po_reg_index op \<le> 7"
  using assms
  by (auto simp: resolve_operand_mode_def mode_is_legal_def defined_modes_def split: OperandKind.split_asm if_split_asm)

lemma opcode_modes_table: "info_valid (opcode_info op) \<Longrightarrow>
   opcode_modes op = (info_op1_modes (opcode_info op), info_op2_modes (opcode_info op))"
  by (simp add: opcode_modes_def instruction_opcode_modes_def OPCODE_TABLE_code Let_def)

lemma opcode_modes_none: "info_valid (opcode_info op) \<Longrightarrow> info_op1_modes (opcode_info op) = MODE_BIT MODE_NONE \<Longrightarrow>
   info_op2_modes (opcode_info op) = MODE_BIT MODE_NONE"
  by (cases op) (auto simp: MODES_NONE_def MODES_REG_def MODES_REG_IMM16_def MODES_MEM_def MODES_MEM_DIRECT_def
      MODES_IMM8_def MODE_BIT_def)

lemma none_legal: "mode_is_legal MODE_NONE (MODE_BIT MODE_NONE)"
  by (simp add: mode_is_legal_def MODE_BIT_def)

lemma lookup_ident_mem: "lookup_ident es s = Some v \<Longrightarrow> v \<in> snd ` set es"
  by (induction es s rule: lookup_ident.induct) (auto split: if_split_asm)

lemma lookup_mnemonic_valid: "lookup_mnemonic s = Some op \<Longrightarrow> info_valid (opcode_info op)"
  using lookup_ident_mem [of MNEMONICS s op] by (auto simp: lookup_mnemonic_def MNEMONICS_def)

text \<open>An operand with the mode the parser chose for it.\<close>

definition operand_ok :: "bool \<Rightarrow> ParsedOperand \<Rightarrow> AddrMode \<Rightarrow> u8 \<Rightarrow> bool" where
  "operand_ok present op m legal \<longleftrightarrow> mode_is_legal m legal \<and> m \<in> defined_modes \<and> (present \<longleftrightarrow> m \<noteq> MODE_NONE) \<and>
     (m \<in> {MODE_REG, MODE_REG_INDIRECT} \<longrightarrow>
        po_kind op \<in> {OPKIND_REG, OPKIND_REG_INDIRECT} \<and> 0 \<le> po_reg_index op \<and> po_reg_index op \<le> 7)"

definition stmt_ok :: "Statement \<Rightarrow> bool" where
  "stmt_ok st =
     (case st_kind st of
        STMT_INSTRUCTION \<Rightarrow> info_valid (opcode_info (st_opcode st)) \<and>
          operand_ok (st_operand_count st \<ge> 1) (st_op1 st) (st_op1_mode st) (info_op1_modes (opcode_info (st_opcode st))) \<and>
          operand_ok (st_operand_count st \<ge> 2) (st_op2 st) (st_op2_mode st) (info_op2_modes (opcode_info (st_opcode st))) \<and>
          st_encoded_size st = 2 + mode_byte_size (st_op1_mode st) + mode_byte_size (st_op2_mode st)
      | STMT_STRING \<Rightarrow> st_encoded_size st = int (length (st_string_bytes st)) + 1
      | STMT_WORD \<Rightarrow> st_encoded_size st = 2
      | STMT_BYTE \<Rightarrow> st_encoded_size st = 1
      | _ \<Rightarrow> st_encoded_size st = 0)"

lemma statement_mode_ok:
  assumes "statement_mode present op legal = Inr m" "\<not> present \<Longrightarrow> legal = MODE_BIT MODE_NONE"
  shows "operand_ok present op m legal"
  using assms resolve_operand_mode_ok [of op legal m] none_legal
  by (auto simp: statement_mode_def operand_ok_def defined_modes_def split: if_split_asm sum.split_asm)

definition placed :: "SectionState \<Rightarrow> Statement \<Rightarrow> int \<Rightarrow> Statement" where
  "placed sec st n = st\<lparr>st_in_data := sec_in_data sec, st_address := active_cursor sec, st_encoded_size := n\<rparr>"

definition place_section :: "SectionState \<Rightarrow> int \<Rightarrow> SectionState" where
  "place_section sec n =
     (let sec' = note_section_start sec (sec_in_data sec) (active_cursor sec)
      in set_active_cursor sec' (active_cursor sec' + of_int n))"

lemma place_statement_eq:
  "place_statement stmts sec ts st n = (stmts @ [placed sec st n], place_section sec n, ts)"
  by (simp add: place_statement_def placed_def place_section_def Let_def)

lemma instruction_stmt_ok:
  assumes "parse_instruction_statement stmts sec ts opcode line = Inr (stmts', sec', ts')"
    and "info_valid (opcode_info opcode)"
  shows "\<exists>st n. stmts' = stmts @ [placed sec st n] \<and> sec' = place_section sec n \<and>
    stmt_ok (placed sec st n) \<and> st_kind st = STMT_INSTRUCTION"
  using assms(1)
proof (rule parse_instruction_Inr)
  fix op1 op2 m1 m2 us
  let ?n = "2 + mode_byte_size m1 + mode_byte_size m2"
  let ?st = "instruction_statement opcode line (expected_operands opcode) op1 op2 m1 m2"
  assume m: "statement_mode (expected_operands opcode \<ge> 1) op1 (fst (opcode_modes opcode)) = Inr m1"
    "statement_mode (expected_operands opcode \<ge> 2) op2 (snd (opcode_modes opcode)) = Inr m2"
    and r: "(stmts', sec', ts') = place_statement stmts sec us ?st ?n"
  note tab = opcode_modes_table [OF assms(2)]
  have e: "\<not> expected_operands opcode \<ge> 1 \<Longrightarrow> info_op1_modes (opcode_info opcode) = MODE_BIT MODE_NONE"
    "\<not> expected_operands opcode \<ge> 2 \<Longrightarrow> info_op2_modes (opcode_info opcode) = MODE_BIT MODE_NONE"
    using opcode_modes_none [OF assms(2)] by (auto simp: expected_operands_def tab split: if_split_asm)
  have "operand_ok (expected_operands opcode \<ge> 1) op1 m1 (info_op1_modes (opcode_info opcode))"
    by (rule statement_mode_ok [OF m(1) [unfolded tab fst_conv] e(1)])
  moreover have "operand_ok (expected_operands opcode \<ge> 2) op2 m2 (info_op2_modes (opcode_info opcode))"
    by (rule statement_mode_ok [OF m(2) [unfolded tab snd_conv] e(2)])
  ultimately have "stmt_ok (placed sec ?st ?n)" "st_kind ?st = STMT_INSTRUCTION"
    using assms(2) by (simp_all add: stmt_ok_def placed_def instruction_statement_def)
  with r show ?thesis by (auto simp: place_statement_eq)
qed

subsection \<open>One line of pass 1\<close>

text \<open>
  What a line can do to the statements, the symbols and the section state: define a label
  at the cursor, move the cursor forward, switch to the data section, place a statement.
\<close>

inductive pass1_step ::
  "Statement list \<times> SymbolTable \<times> SectionState \<Rightarrow> Statement list \<times> SymbolTable \<times> SectionState \<Rightarrow> bool" where
  step_label: "symtab_define symtab name (active_cursor sec) = (True, symtab') \<Longrightarrow>
     pass1_step (stmts, symtab, sec) (stmts @ [label_statement name line (active_cursor sec)], symtab', sec)"
| step_org: "active_cursor sec \<le> a \<Longrightarrow> st_kind st = STMT_ORG \<Longrightarrow> stmt_ok st \<Longrightarrow>
     pass1_step (stmts, symtab, sec) (stmts @ [st], symtab, set_active_cursor sec a)"
| step_data: "\<not> sec_data_seen sec \<Longrightarrow> st_kind st = STMT_DATA_SECTION \<Longrightarrow> stmt_ok st \<Longrightarrow>
     pass1_step (stmts, symtab, sec) (stmts @ [st], symtab,
       sec\<lparr>sec_data_seen := True, sec_in_data := True, sec_data_cursor := sec_code_cursor sec\<rparr>)"
| step_place: "stmt_ok (placed sec st n) \<Longrightarrow> st_kind st \<in> {STMT_INSTRUCTION, STMT_STRING, STMT_WORD, STMT_BYTE} \<Longrightarrow>
     pass1_step (stmts, symtab, sec) (stmts @ [placed sec st n], symtab, place_section sec n)"

lemma zero_kind_ok [simp]: "k \<in> {STMT_ORG, STMT_DATA_SECTION} \<Longrightarrow> stmt_ok (statement_zero\<lparr>st_kind := k, st_line := l\<rparr>)"
  by (auto simp: stmt_ok_def statement_zero_def)

lemma directive_step:
  assumes "parse_directive_statement stmts sec ts name line = Inr (stmts', sec', ts')"
  shows "pass1_step (stmts, symtab, sec) (stmts', symtab, sec')"
proof -
  have org: "pass1_step (stmts, symtab, sec) (stmts', symtab, sec')" if "parse_org stmts sec us line = Inr (stmts', sec', ts')" for us
    using that by (auto simp: parse_org_def Let_def not_less intro!: step_org split: if_split_asm)
  have data: "pass1_step (stmts, symtab, sec) (stmts', symtab, sec')" if "parse_data stmts sec us line = Inr (stmts', sec', ts')" for us
    using that by (auto simp: parse_data_def intro!: step_data split: if_split_asm)
  have place: "pass1_step (stmts, symtab, sec) (stmts', symtab, sec')"
    if "(stmts', sec', ts') = place_statement stmts sec us st n" "stmt_ok (placed sec st n)"
      "st_kind st \<in> {STMT_STRING, STMT_WORD, STMT_BYTE}" for us st n
    using that step_place [of sec st n stmts symtab] by (auto simp: place_statement_eq)
  show ?thesis
    using assms
    by (auto simp: parse_directive_statement_def Let_def parse_string_def parse_word_def parse_byte_def
        intro: org data place [OF sym] split: if_split_asm)
      (auto simp: placed_def stmt_ok_def statement_zero_def intro!: place [OF sym])
qed

lemma line_body_step:
  assumes "parse_line_body stmts symtab sec ts = Inr (symtab', stmts', sec', ts')"
  shows "pass1_step (stmts, symtab, sec) (stmts', symtab', sec')"
proof (cases "tok_type (cur ts) = TOK_DIRECTIVE")
  case True
  with assms show ?thesis by (auto simp: parse_line_body_def intro: directive_step)
next
  case False
  with assms obtain op where op: "lookup_mnemonic (tok_text (cur ts)) = Some op" "symtab' = symtab"
    "parse_instruction_statement stmts sec (advance ts) op (tok_line (cur ts)) = Inr (stmts', sec', ts')"
    by (auto simp: parse_line_body_def Let_def split: if_split_asm option.split_asm)
  from instruction_stmt_ok [OF op(3) lookup_mnemonic_valid [OF op(1)]] op(2) show ?thesis
    by (auto intro: step_place)
qed

lemma line_steps:
  assumes "parse_line stmts symtab sec ts = Inr (symtab', stmts', sec', ts')"
  shows "pass1_step\<^sup>*\<^sup>* (stmts, symtab, sec) (stmts', symtab', sec')"
  using assms
proof (cases rule: parse_line_Inr)
  case body
  then show ?thesis by (intro r_into_rtranclp line_body_step)
next
  case label
  then show ?thesis by (auto intro: r_into_rtranclp step_label)
next
  case (label_body symtab1)
  from step_label [OF label_body(2)] line_body_step [OF label_body(3)] show ?thesis
    by (rule converse_rtranclp_into_rtranclp [OF _ r_into_rtranclp])
qed

lemma build_statements_steps:
  assumes "build_statements stmts symtab sec ts = Some (Inr r)"
  shows "pass1_step\<^sup>*\<^sup>* (stmts, symtab, sec) r \<and> sec_code_started (snd (snd r))"
proof -
  let ?P = "\<lambda>stmts symtab sec (ts :: Token list) res. case res of Inl (e :: asm_error) \<Rightarrow> True
    | Inr r \<Rightarrow> pass1_step\<^sup>*\<^sup>* (stmts, symtab, sec) r \<and> sec_code_started (snd (snd r))"
  have "?P stmts symtab sec ts (Inr r)"
  proof (rule build_statements.raw_induct [of ?P, OF _ assms])
    fix build :: "Statement list \<Rightarrow> SymbolTable \<Rightarrow> SectionState \<Rightarrow> Token list \<Rightarrow>
        (asm_error + (Statement list \<times> SymbolTable \<times> SectionState)) option"
      and stmts symtab sec ts res
    assume IH: "\<And>stmts symtab sec ts res. build stmts symtab sec ts = Some res \<Longrightarrow> ?P stmts symtab sec ts res"
      and run: "(if tok_type (cur ts) = TOK_EOF then
        Some (if \<not> sec_code_started sec
              then fail (tok_line (cur ts)) ''program contains no instructions or code-section data''
              else Inr (stmts, symtab, sec))
      else if tok_type (cur ts) = TOK_NEWLINE then build stmts symtab sec (advance ts)
      else
        (case parse_line stmts symtab sec ts of
           Inl e \<Rightarrow> Some (Inl e)
         | Inr (symtab, stmts, sec, ts) \<Rightarrow>
             if tok_type (cur ts) = TOK_NEWLINE then build stmts symtab sec (advance ts)
             else if tok_type (cur ts) \<noteq> TOK_EOF then Some (fail (tok_line (cur ts)) ''expected end of line'')
             else build stmts symtab sec ts)) = Some res"
    show "?P stmts symtab sec ts res"
    proof (cases "tok_type (cur ts) = TOK_EOF \<or> tok_type (cur ts) = TOK_NEWLINE")
      case True
      with run IH [of stmts symtab sec "advance ts" res] show ?thesis
        by (auto simp: fail_def split: if_split_asm)
    next
      case False
      show ?thesis
      proof (cases "parse_line stmts symtab sec ts")
        case (Inl e)
        with run False show ?thesis by auto
      next
        case (Inr r)
        obtain symtab' stmts' sec' ts' where r: "r = (symtab', stmts', sec', ts')" by (cases r) auto
        note steps = line_steps [OF Inr [unfolded r]]
        have "(\<exists>us. build stmts' symtab' sec' us = Some res) \<or> (\<exists>e. res = Inl e)"
          using run False unfolding Inr r by (auto simp: fail_def split: if_split_asm)
        then show ?thesis
          using IH [of stmts' symtab' sec' _ res] steps rtranclp_trans [OF steps] by (auto split: sum.splits)
      qed
    qed
  qed
  then show ?thesis by simp
qed

subsection \<open>The layout of the statements\<close>

definition emits :: "Statement \<Rightarrow> bool" where
  "emits st \<longleftrightarrow> st_kind st \<in> {STMT_INSTRUCTION, STMT_STRING, STMT_WORD, STMT_BYTE}"

definition stmt_start :: "Statement \<Rightarrow> nat" where
  "stmt_start st = unat (st_address st)"

definition stmt_end :: "Statement \<Rightarrow> nat" where
  "stmt_end st = unat (st_address st) + nat (st_encoded_size st)"

definition fits :: "Statement \<Rightarrow> bool" where
  "fits st \<longleftrightarrow> stmt_end st < 65536"

text \<open>The statements of a section lie between its start and its cursor.\<close>

definition in_section :: "SectionState \<Rightarrow> Statement \<Rightarrow> bool" where
  "in_section sec st \<longleftrightarrow>
     (if st_in_data st
      then sec_data_started sec \<and> unat (sec_data_start_addr sec) \<le> stmt_start st \<and> stmt_end st \<le> unat (sec_data_cursor sec)
      else sec_code_started sec \<and> unat (sec_code_start_addr sec) \<le> stmt_start st \<and> stmt_end st \<le> unat (sec_code_cursor sec))"

definition sections_ok :: "SectionState \<Rightarrow> bool" where
  "sections_ok sec \<longleftrightarrow>
     (sec_data_seen sec \<longleftrightarrow> sec_in_data sec) \<and>
     (sec_in_data sec \<longrightarrow> sec_code_cursor sec \<le> sec_data_cursor sec) \<and>
     (sec_code_started sec \<longrightarrow> sec_code_start_addr sec < sec_code_cursor sec) \<and>
     (sec_data_started sec \<longrightarrow> sec_in_data sec \<and> sec_code_cursor sec \<le> sec_data_start_addr sec
        \<and> sec_data_start_addr sec < sec_data_cursor sec)"

definition labels_ok :: "Statement list \<Rightarrow> SymbolTable \<Rightarrow> bool" where
  "labels_ok stmts symtab \<longleftrightarrow> (\<forall>name a. symtab_lookup symtab name = Some a \<longleftrightarrow>
     (\<exists>st \<in> set stmts. st_kind st = STMT_LABEL \<and> st_label_name st = name \<and> st_address st = a))"

definition layout :: "Statement list \<Rightarrow> SectionState \<Rightarrow> bool" where
  "layout stmts sec \<longleftrightarrow> sections_ok sec \<and>
     (\<forall>st \<in> set stmts. emits st \<longrightarrow> in_section sec st) \<and>
     sorted_wrt (\<lambda>s t. stmt_end s \<le> stmt_start t) (filter emits stmts)"

lemma mode_byte_size_nonneg: "0 \<le> mode_byte_size m"
  by (simp add: mode_byte_size_def split: AddrMode.split)

lemma stmt_ok_size: "stmt_ok st \<Longrightarrow> 0 \<le> st_encoded_size st \<and> (emits st \<longrightarrow> 1 \<le> st_encoded_size st)"
  using mode_byte_size_nonneg [of "st_op1_mode st"] mode_byte_size_nonneg [of "st_op2_mode st"]
  by (auto simp: stmt_ok_def emits_def split: StmtKind.split_asm)

lemma section_fields [simp]:
  "sec_in_data (set_active_cursor sec a) = sec_in_data sec"
  "sec_data_seen (set_active_cursor sec a) = sec_data_seen sec"
  "sec_code_started (set_active_cursor sec a) = sec_code_started sec"
  "sec_data_started (set_active_cursor sec a) = sec_data_started sec"
  "sec_code_start_addr (set_active_cursor sec a) = sec_code_start_addr sec"
  "sec_data_start_addr (set_active_cursor sec a) = sec_data_start_addr sec"
  "sec_code_cursor (set_active_cursor sec a) = (if sec_in_data sec then sec_code_cursor sec else a)"
  "sec_data_cursor (set_active_cursor sec a) = (if sec_in_data sec then a else sec_data_cursor sec)"
  by (simp_all add: set_active_cursor_def)

lemma note_fields [simp]:
  "sec_in_data (note_section_start sec d a) = sec_in_data sec"
  "sec_data_seen (note_section_start sec d a) = sec_data_seen sec"
  "sec_code_cursor (note_section_start sec d a) = sec_code_cursor sec"
  "sec_data_cursor (note_section_start sec d a) = sec_data_cursor sec"
  "active_cursor (note_section_start sec d a) = active_cursor sec"
  "sec_code_started (note_section_start sec d a) \<longleftrightarrow> sec_code_started sec \<or> \<not> d"
  "sec_data_started (note_section_start sec d a) \<longleftrightarrow> sec_data_started sec \<or> d"
  "sec_code_start_addr (note_section_start sec d a) = (if \<not> d \<and> \<not> sec_code_started sec then a else sec_code_start_addr sec)"
  "sec_data_start_addr (note_section_start sec d a) = (if d \<and> \<not> sec_data_started sec then a else sec_data_start_addr sec)"
  by (auto simp: note_section_start_def active_cursor_def)

lemma placed_fields [simp]:
  "st_in_data (placed sec st n) = sec_in_data sec" "st_address (placed sec st n) = active_cursor sec"
  "st_encoded_size (placed sec st n) = n" "st_kind (placed sec st n) = st_kind st"
  by (simp_all add: placed_def)

text \<open>Every placed statement so far ends at or before the active cursor.\<close>

lemma ends_before_cursor:
  assumes "sections_ok sec" "in_section sec st"
  shows "stmt_end st \<le> unat (active_cursor sec)"
  using assms by (auto simp: sections_ok_def in_section_def active_cursor_def word_le_nat_alt split: if_split_asm)

lemma cursor_move:
  assumes "fits (placed sec st n)" "0 \<le> n"
  shows "unat (active_cursor sec + of_int n) = unat (active_cursor sec) + nat n"
proof -
  have "unat (active_cursor sec) + nat n < 65536" using assms by (simp add: fits_def stmt_end_def)
  moreover have "unat (of_int n :: u16) = nat n"
    using calculation assms(2) unat_of_nat_u16 [of "nat n"] by simp
  ultimately show ?thesis by (simp add: unat_word_ariths)
qed

lemma sections_ok_place:
  assumes "sections_ok sec" "fits (placed sec st n)" "1 \<le> n"
  shows "sections_ok (place_section sec n)"
  using assms(1,3) cursor_move [OF assms(2)]
  by (auto simp: sections_ok_def place_section_def Let_def word_le_nat_alt word_less_nat_alt active_cursor_def split: if_split_asm)

lemma in_section_place:
  assumes "sections_ok sec" "fits (placed sec st n)" "1 \<le> n"
  shows "in_section (place_section sec n) (placed sec st n)"
    and "in_section sec t \<Longrightarrow> in_section (place_section sec n) t"
  using assms(1,3) cursor_move [OF assms(2)]
  by (auto simp: sections_ok_def in_section_def place_section_def Let_def stmt_start_def stmt_end_def
      word_le_nat_alt word_less_nat_alt active_cursor_def split: if_split_asm)

lemma label_fields [simp]: "st_kind (label_statement n l a) = STMT_LABEL" "\<not> emits (label_statement n l a)"
  "st_label_name (label_statement n l a) = n" "st_address (label_statement n l a) = a"
  "stmt_ok (label_statement n l a)"
  by (simp_all add: label_statement_def emits_def stmt_ok_def statement_zero_def)

lemma layout_place:
  assumes "layout stmts sec" "fits (placed sec st n)" "stmt_ok (placed sec st n)" "emits (placed sec st n)"
  shows "layout (stmts @ [placed sec st n]) (place_section sec n)"
proof -
  have n: "1 \<le> n" using stmt_ok_size [OF assms(3)] assms(4) by simp
  have sec: "sections_ok sec" using assms(1) by (simp add: layout_def)
  have "\<forall>t \<in> set (filter emits stmts). stmt_end t \<le> stmt_start (placed sec st n)"
    using assms(1) ends_before_cursor [OF sec] by (auto simp: layout_def stmt_start_def)
  then show ?thesis
    using assms(1,4) sections_ok_place [OF sec assms(2) n] in_section_place [OF sec assms(2) n]
    by (auto simp: layout_def sorted_wrt_append)
qed

lemma layout_move:
  assumes "layout stmts sec" "active_cursor sec \<le> a"
  shows "layout stmts (set_active_cursor sec a)"
  using assms by (auto simp: layout_def sections_ok_def in_section_def active_cursor_def word_le_nat_alt word_less_nat_alt
      split: if_split_asm)

lemma layout_switch:
  assumes "layout stmts sec" "\<not> sec_data_seen sec"
  shows "layout stmts (sec\<lparr>sec_data_seen := True, sec_in_data := True, sec_data_cursor := sec_code_cursor sec\<rparr>)"
  using assms by (auto simp: layout_def sections_ok_def in_section_def split: if_split_asm)

lemma layout_silent: "\<not> emits st \<Longrightarrow> layout (stmts @ [st]) sec = layout stmts sec"
  by (simp add: layout_def)

lemma labels_ok_other: "st_kind st \<noteq> STMT_LABEL \<Longrightarrow> labels_ok (stmts @ [st]) symtab = labels_ok stmts symtab"
  by (simp add: labels_ok_def)

lemma labels_ok_define:
  assumes "labels_ok stmts symtab" "symtab_define symtab name a = (True, symtab')"
  shows "labels_ok (stmts @ [label_statement name l a]) symtab'"
  unfolding labels_ok_def
proof (intro allI)
  fix m b
  have "symtab_lookup symtab name = None" using symtab.define_true(1) [OF assms(2)] .
  then have "\<not> (\<exists>st \<in> set stmts. st_kind st = STMT_LABEL \<and> st_label_name st = name)"
    using assms(1) unfolding labels_ok_def by (metis option.distinct(1))
  then show "symtab_lookup symtab' m = Some b \<longleftrightarrow>
      (\<exists>st \<in> set (stmts @ [label_statement name l a]). st_kind st = STMT_LABEL \<and> st_label_name st = m \<and> st_address st = b)"
    using assms(1) symtab.define_true(2) [OF assms(2), of m] by (auto simp: labels_ok_def)
qed

lemma pass1_step_layout:
  assumes "pass1_step s s'" "s = (stmts, symtab, sec)" "s' = (stmts', symtab', sec')"
    and "layout stmts sec" "\<forall>st \<in> set stmts. stmt_ok st" "\<forall>st \<in> set stmts'. fits st"
  shows "layout stmts' sec' \<and> (\<forall>st \<in> set stmts'. stmt_ok st)"
  using assms
proof cases
  case (step_org sec a st stmts symtab)
  then show ?thesis using assms by (auto simp: layout_silent emits_def intro: layout_move)
next
  case (step_data sec st stmts symtab)
  then show ?thesis using assms by (auto simp: layout_silent emits_def intro: layout_switch)
next
  case (step_place sec st n stmts symtab)
  moreover have "emits (placed sec st n)" using step_place by (simp add: emits_def)
  ultimately show ?thesis using assms by (auto intro: layout_place)
qed (auto simp: layout_silent)

lemma pass1_extends: "pass1_step s s' \<Longrightarrow> set (fst s) \<subseteq> set (fst s')"
  by (auto elim!: pass1_step.cases)

lemma pass1_layout:
  assumes "pass1_step\<^sup>*\<^sup>* ([], symtab_init, section_zero) (stmts, symtab, sec)" "\<forall>st \<in> set stmts. fits st"
  shows "layout stmts sec \<and> (\<forall>st \<in> set stmts. stmt_ok st)"
  using assms
proof (induction "(stmts, symtab, sec)" arbitrary: stmts symtab sec rule: rtranclp_induct)
  case base
  then show ?case
    by (simp add: layout_def sections_ok_def section_zero_def)
next
  case (step s)
  obtain stmts1 symtab1 sec1 where s: "s = (stmts1, symtab1, sec1)" by (cases s)
  have "set stmts1 \<subseteq> set stmts" using pass1_extends [OF step.hyps(2)] s by simp
  with step.prems have "\<forall>st \<in> set stmts1. fits st" by blast
  with step.hyps(3) [OF s] have "layout stmts1 sec1 \<and> (\<forall>st \<in> set stmts1. stmt_ok st)" .
  with pass1_step_layout [OF step.hyps(2) s refl] step.prems show ?case by blast
qed

end
