(* ===== verification/Bvm_Program.thy ===== *)
theory Bvm_Program
  imports Bvm_Layout
begin

text \<open>
  Pass 2 and the image writer are correct (src/assembler/parser.c, src/assembler.c): the bytes
  of a statement (\<open>statement_bytes\<close>), their emission into the 64 KB buffers, and the loaded
  program.
\<close>

unbundle bit_operations_syntax

subsection \<open>The bytes of a statement\<close>

text \<open>The value an operand denotes: its register index, its number, or the address of its label.\<close>

definition value_of :: "ParsedOperand \<Rightarrow> SymbolTable \<Rightarrow> int" where
  "value_of op symtab =
     (if po_kind op \<in> {OPKIND_REG, OPKIND_REG_INDIRECT} then po_reg_index op
      else if po_kind op \<in> {OPKIND_NUMBER, OPKIND_MEM_NUMBER} then po_number op
      else if po_kind op \<in> {OPKIND_LABEL, OPKIND_MEM_LABEL}
      then (case symtab_lookup symtab (po_label op) of Some a \<Rightarrow> uint a | None \<Rightarrow> 0)
      else 0)"

definition value_defined :: "ParsedOperand \<Rightarrow> SymbolTable \<Rightarrow> bool" where
  "value_defined op symtab \<longleftrightarrow>
     (po_kind op \<in> {OPKIND_LABEL, OPKIND_MEM_LABEL} \<longrightarrow> symtab_lookup symtab (po_label op) \<noteq> None)"

text \<open>The values an operand of a mode can hold (docs/DESIGN.md section 11.4).\<close>

definition in_range :: "AddrMode \<Rightarrow> int \<Rightarrow> bool" where
  "in_range m v \<longleftrightarrow>
     (m \<in> {MODE_IMM16, MODE_MEM_DIRECT} \<longrightarrow> -32768 \<le> v \<and> v \<le> 65535) \<and> (m = MODE_IMM8 \<longrightarrow> 0 \<le> v \<and> v \<le> 255)"

definition operand_fine :: "SymbolTable \<Rightarrow> ParsedOperand \<Rightarrow> AddrMode \<Rightarrow> bool" where
  "operand_fine symtab op m \<longleftrightarrow> m = MODE_NONE \<or> value_defined op symtab \<and> in_range m (value_of op symtab)"

text \<open>A statement without an undefined label and without a value that is out of range.\<close>

definition values_ok :: "SymbolTable \<Rightarrow> Statement \<Rightarrow> bool" where
  "values_ok symtab st =
     (case st_kind st of
        STMT_INSTRUCTION \<Rightarrow> operand_fine symtab (st_op1 st) (st_op1_mode st) \<and> operand_fine symtab (st_op2 st) (st_op2_mode st)
      | STMT_WORD \<Rightarrow> value_defined (st_word_operand st) symtab
      | STMT_BYTE \<Rightarrow> 0 \<le> po_number (st_byte_operand st) \<and> po_number (st_byte_operand st) \<le> 255
      | _ \<Rightarrow> True)"

lemma resolve_value_defined:
  "value_defined op symtab \<Longrightarrow> resolve_value op symtab = Inr (value_of op symtab)"
  "\<not> value_defined op symtab \<Longrightarrow> \<exists>e. resolve_value op symtab = Inl e"
  by (cases "po_kind op"; auto simp: resolve_value_def value_of_def value_defined_def)+

lemma range_check_None: "range_check m v = None \<longleftrightarrow> in_range m v"
  by (auto simp: range_check_def in_range_def)

lemma operand_value_fine:
  assumes "operand_ok present op m legal"
  shows "operand_fine symtab op m \<Longrightarrow> operand_value present op m symtab = Inr (if m = MODE_NONE then 0 else value_of op symtab)"
    "\<not> operand_fine symtab op m \<Longrightarrow> \<exists>msg l. operand_value present op m symtab = Inl (AsmError msg l)"
proof -
  have p: "present \<longleftrightarrow> m \<noteq> MODE_NONE" using assms by (simp add: operand_ok_def)
  show "operand_value present op m symtab = Inr (if m = MODE_NONE then 0 else value_of op symtab)"
    if "operand_fine symtab op m"
    using that p range_check_None [of m "value_of op symtab"]
    by (auto simp: operand_fine_def operand_value_def resolve_value_defined)
  show "\<exists>msg l. operand_value present op m symtab = Inl (AsmError msg l)" if "\<not> operand_fine symtab op m"
    using that p range_check_None [of m "value_of op symtab"] resolve_value_defined [of op symtab]
    by (cases "value_defined op symtab") (auto simp: operand_fine_def operand_value_def fail_def)
qed

definition resolved_operand :: "ParsedOperand \<Rightarrow> AddrMode \<Rightarrow> SymbolTable \<Rightarrow> Operand" where
  "resolved_operand op m symtab =
     \<lparr>op_mode = m, op_value = (if m = MODE_NONE then 0 else of_int (value_of op symtab))\<rparr>"

definition resolved_instruction :: "SymbolTable \<Rightarrow> Statement \<Rightarrow> Instruction" where
  "resolved_instruction symtab st =
     \<lparr>instr_opcode = st_opcode st, instr_op1 = resolved_operand (st_op1 st) (st_op1_mode st) symtab,
      instr_op2 = resolved_operand (st_op2 st) (st_op2_mode st) symtab\<rparr>"

definition statement_bytes :: "SymbolTable \<Rightarrow> Statement \<Rightarrow> u8 list" where
  "statement_bytes symtab st =
     (case st_kind st of
        STMT_INSTRUCTION \<Rightarrow> encode_instruction (resolved_instruction symtab st)
      | STMT_STRING \<Rightarrow> st_string_bytes st @ [0]
      | STMT_WORD \<Rightarrow> le16 (of_int (value_of (st_word_operand st) symtab))
      | STMT_BYTE \<Rightarrow> [of_int (po_number (st_byte_operand st))]
      | _ \<Rightarrow> [])"

definition buf_put :: "buffer \<Rightarrow> u16 \<Rightarrow> u8 list \<Rightarrow> buffer" where
  "buf_put buf addr bs = (\<lambda>a. case region_byte addr bs a of Some b \<Rightarrow> b | None \<Rightarrow> buf a)"

lemma buf_copy_append:
  "buf_copy buf i (xs @ ys) = asm_bind (buf_copy buf i xs) (\<lambda>b. buf_copy b (i + length xs) ys)"
proof (induction xs arbitrary: buf i)
  case (Cons x xs)
  then show ?case by (cases "buf_write buf i x") simp_all
qed simp

lemma buf_put_Nil [simp]: "buf_put buf addr [] = buf"
  by (rule ext) (auto simp: buf_put_def region_byte_def)

lemma buf_copy_put:
  assumes "unat addr + length bs \<le> 65536"
  shows "buf_copy buf (unat addr) bs = Inr (buf_put buf addr bs)"
  using assms
proof (induction bs rule: rev_induct)
  case Nil
  then show ?case by simp
next
  case (snoc b bs)
  have lt: "unat addr + length bs < 65536" using snoc.prems by simp
  have u: "unat (of_nat (unat addr + length bs) :: u16) = unat addr + length bs" by (rule unat_of_nat_u16 [OF lt])
  have "(buf_put buf addr bs)(of_nat (unat addr + length bs) := b) = buf_put buf addr (bs @ [b])"
  proof (rule ext)
    fix a :: u16
    have "a = of_nat (unat addr + length bs) \<longleftrightarrow> unat a = unat addr + length bs" by (metis u word_unat_eq_iff)
    then show "((buf_put buf addr bs)(of_nat (unat addr + length bs) := b)) a = buf_put buf addr (bs @ [b]) a"
      by (auto simp: buf_put_def region_byte_def nth_append)
  qed
  with snoc lt show ?case by (simp add: buf_copy_append buf_write_def)
qed

lemma of_int_le_word:
  assumes "0 \<le> k" "k \<le> int j" "j < 65536"
  shows "(of_int k :: u16) \<le> of_nat j"
proof -
  obtain i where i: "k = int i" "i \<le> j" using assms(1,2) by (metis nat_0_le zle_int)
  then show ?thesis using assms(3) by (simp add: word_le_nat_alt unat_of_nat_u16)
qed

lemma operand_fine_wf:
  assumes "operand_ok present op m legal" "operand_fine symtab op m"
  shows "operand_wf (resolved_operand op m symtab)"
proof -
  have reg: "value_of op symtab = po_reg_index op" "0 \<le> po_reg_index op" "po_reg_index op \<le> 7"
    if "m \<in> {MODE_REG, MODE_REG_INDIRECT}"
    using assms(1) that by (auto simp: operand_ok_def value_of_def)
  have imm8: "0 \<le> value_of op symtab \<and> value_of op symtab \<le> 255" if "m = MODE_IMM8"
    using assms(2) that by (simp add: operand_fine_def in_range_def)
  have "m \<in> defined_modes" using assms(1) by (simp add: operand_ok_def)
  then show ?thesis
    using of_int_le_word [of "value_of op symtab" 7] of_int_le_word [of "value_of op symtab" 255] reg imm8
    by (auto simp: operand_wf_def resolved_operand_def defined_modes_def)
qed

lemma encode_operand_size: "operand_wf x \<Longrightarrow> length (encode_operand x) = nat (mode_byte_size (op_mode x))"
  by (auto simp: encode_operand_def mode_byte_size_def operand_wf_def split: AddrMode.splits)

lemma ucast_of_int: "(ucast (of_int v :: u16) :: u8) = of_int v"
  by (rule bit_word_eqI) (simp add: bit_simps)

lemma emit_operand_copy:
  assumes "operand_wf (resolved_operand op m symtab)" "m \<noteq> MODE_NONE \<Longrightarrow> v = value_of op symtab"
    and "n = length (encode_operand (resolved_operand op m symtab))"
  shows "emit_operand_bytes target addr m v =
    asm_bind (buf_copy target (unat addr) (encode_operand (resolved_operand op m symtab)))
      (\<lambda>t. Inr (t, addr + of_nat n))"
  using assms
  by (cases m) (auto simp: emit_operand_bytes_def encode_operand_def resolved_operand_def operand_wf_def
      ucast_of_int asm_bind_def buf_write_def Let_def)

lemma emit_instruction_copy:
  assumes "stmt_ok st" "st_kind st = STMT_INSTRUCTION" "fits st"
    and fine: "operand_fine symtab (st_op1 st) (st_op1_mode st)" "operand_fine symtab (st_op2 st) (st_op2_mode st)"
  shows "instr_wf (resolved_instruction symtab st)"
    "length (encode_instruction (resolved_instruction symtab st)) = nat (st_encoded_size st)"
    "emit_instruction st symtab target =
       buf_copy target (unat (st_address st)) (encode_instruction (resolved_instruction symtab st))"
proof -
  let ?o1 = "resolved_operand (st_op1 st) (st_op1_mode st) symtab" and ?o2 = "resolved_operand (st_op2 st) (st_op2_mode st) symtab"
  let ?a = "st_address st"
  have ok: "info_valid (opcode_info (st_opcode st))"
    "operand_ok (st_operand_count st \<ge> 1) (st_op1 st) (st_op1_mode st) (info_op1_modes (opcode_info (st_opcode st)))"
    "operand_ok (st_operand_count st \<ge> 2) (st_op2 st) (st_op2_mode st) (info_op2_modes (opcode_info (st_opcode st)))"
    and sz: "st_encoded_size st = 2 + mode_byte_size (st_op1_mode st) + mode_byte_size (st_op2_mode st)"
    using assms(1,2) by (auto simp: stmt_ok_def)
  note w1 = operand_fine_wf [OF ok(2) fine(1)] and w2 = operand_fine_wf [OF ok(3) fine(2)]
  obtain v1 v2 where v: "operand_value (st_operand_count st \<ge> 1) (st_op1 st) (st_op1_mode st) symtab = Inr v1"
      "operand_value (st_operand_count st \<ge> 2) (st_op2 st) (st_op2_mode st) symtab = Inr v2"
    and eq: "st_op1_mode st \<noteq> MODE_NONE \<Longrightarrow> v1 = value_of (st_op1 st) symtab"
      "st_op2_mode st \<noteq> MODE_NONE \<Longrightarrow> v2 = value_of (st_op2 st) symtab"
    using operand_value_fine(1) [OF ok(2) fine(1)] operand_value_fine(1) [OF ok(3) fine(2)] by auto
  have m: "op_mode ?o1 = st_op1_mode st" "op_mode ?o2 = st_op2_mode st" by (simp_all add: resolved_operand_def)
  show wf: "instr_wf (resolved_instruction symtab st)"
    using ok w1 w2 by (simp add: instr_wf_def resolved_instruction_def Let_def m operand_ok_def)
  have len: "length (encode_operand ?o1) = nat (mode_byte_size (st_op1_mode st))"
    "length (encode_operand ?o2) = nat (mode_byte_size (st_op2_mode st))"
    using encode_operand_size [OF w1] encode_operand_size [OF w2] m by auto
  note nn = mode_byte_size_nonneg [of "st_op1_mode st"] mode_byte_size_nonneg [of "st_op2_mode st"]
  show "length (encode_instruction (resolved_instruction symtab st)) = nat (st_encoded_size st)"
    using len sz nn by (simp add: encode_instruction_def resolved_instruction_def nat_add_distrib)
  have lt: "unat ?a + 2 + length (encode_operand ?o1) < 65536"
    using assms(3) len sz nn by (simp add: fits_def stmt_end_def nat_add_distrib)
  have a2: "unat (?a + 2) = unat ?a + 2" using unat_add_nat [of ?a 2] lt by simp
  have a3: "unat (?a + 2 + of_nat (length (encode_operand ?o1))) = unat ?a + 2 + length (encode_operand ?o1)"
    using unat_add_nat [of "?a + 2" "length (encode_operand ?o1)"] lt a2 by simp
  have e1: "emit_operand_bytes t a (st_op1_mode st) v1 =
      asm_bind (buf_copy t (unat a) (encode_operand ?o1)) (\<lambda>t. Inr (t, a + of_nat (length (encode_operand ?o1))))" for t a
    by (rule emit_operand_copy [OF w1 _ refl]) (rule eq(1))
  have e2: "emit_operand_bytes t a (st_op2_mode st) v2 =
      asm_bind (buf_copy t (unat a) (encode_operand ?o2)) (\<lambda>t. Inr (t, a + of_nat (length (encode_operand ?o2))))" for t a
    by (rule emit_operand_copy [OF w2 _ refl]) (rule eq(2))
  show "emit_instruction st symtab target =
      buf_copy target (unat ?a) (encode_instruction (resolved_instruction symtab st))"
    unfolding emit_instruction_def v
    by (auto simp: e1 e2 Let_def encode_instruction_def resolved_instruction_def mode_byte_def m buf_copy_append a2 a3
        asm_bind_def split: sum.split)
qed

lemma asm_bind_return [simp]: "asm_bind m (\<lambda>x. Inr x) = m"
  by (cases m) simp_all

definition stmt_bytes_ok :: "SymbolTable \<Rightarrow> Statement \<Rightarrow> bool" where
  "stmt_bytes_ok symtab st \<longleftrightarrow> length (statement_bytes symtab st) = nat (st_encoded_size st) \<and>
     (st_kind st = STMT_INSTRUCTION \<longrightarrow> instr_wf (resolved_instruction symtab st))"

text \<open>
  Emitting a statement that fits reports an error exactly when one of its values is not all
  right, and otherwise writes exactly its bytes.
\<close>

lemma emit_instruction_fails:
  assumes "stmt_ok st" "st_kind st = STMT_INSTRUCTION" "\<not> values_ok symtab st"
  shows "\<exists>msg l. emit_instruction st symtab target = Inl (AsmError msg l)"
proof -
  have ok: "operand_ok (st_operand_count st \<ge> 1) (st_op1 st) (st_op1_mode st) (info_op1_modes (opcode_info (st_opcode st)))"
    "operand_ok (st_operand_count st \<ge> 2) (st_op2 st) (st_op2_mode st) (info_op2_modes (opcode_info (st_opcode st)))"
    using assms(1,2) by (auto simp: stmt_ok_def)
  show ?thesis
    using operand_value_fine [OF ok(1), of symtab] operand_value_fine(2) [OF ok(2), of symtab] assms(2,3)
    by (cases "operand_fine symtab (st_op1 st) (st_op1_mode st)") (auto simp: values_ok_def emit_instruction_def)
qed

lemma emit_bytes_result:
  assumes "stmt_ok st" "fits st"
  shows "(\<exists>msg l. emit_bytes st symtab target = Inl (AsmError msg l)) \<and> \<not> values_ok symtab st \<or>
    emit_bytes st symtab target = Inr (buf_put target (st_address st) (statement_bytes symtab st))
    \<and> stmt_bytes_ok symtab st \<and> values_ok symtab st"
proof -
  let ?a = "st_address st" and ?bs = "statement_bytes symtab st"
  have put: "?thesis" if "emit_bytes st symtab target = buf_copy target (unat ?a) ?bs" "stmt_bytes_ok symtab st"
      "values_ok symtab st"
    using that assms buf_copy_put [of ?a ?bs target] by (auto simp: fits_def stmt_end_def stmt_bytes_ok_def)
  show ?thesis
  proof (cases "st_kind st")
    case STMT_INSTRUCTION
    then have e: "emit_bytes st symtab target = emit_instruction st symtab target" by (simp add: emit_bytes_def)
    show ?thesis
    proof (cases "values_ok symtab st")
      case False
      then show ?thesis using emit_instruction_fails [OF assms(1) STMT_INSTRUCTION] e by auto
    next
      case True
      then have "operand_fine symtab (st_op1 st) (st_op1_mode st)" "operand_fine symtab (st_op2 st) (st_op2_mode st)"
        using STMT_INSTRUCTION by (auto simp: values_ok_def)
      note c = emit_instruction_copy [OF assms(1) STMT_INSTRUCTION assms(2) this]
      show ?thesis
        using c e STMT_INSTRUCTION True by (intro put) (simp_all add: statement_bytes_def stmt_bytes_ok_def)
    qed
  next
    case STMT_STRING
    then show ?thesis using assms(1)
      by (intro put) (simp_all add: emit_bytes_def statement_bytes_def buf_copy_append stmt_bytes_ok_def stmt_ok_def values_ok_def)
  next
    case STMT_WORD
    show ?thesis
    proof (cases "value_defined (st_word_operand st) symtab")
      case False
      with STMT_WORD resolve_value_defined(2) [OF False] show ?thesis by (auto simp: emit_bytes_def fail_def values_ok_def)
    next
      case True
      with STMT_WORD assms(1) show ?thesis
        by (intro put) (simp_all add: emit_bytes_def statement_bytes_def resolve_value_defined Let_def le16_def
            asm_bind_def stmt_bytes_ok_def stmt_ok_def values_ok_def split: sum.split)
    qed
  next
    case STMT_BYTE
    show ?thesis
    proof (cases "values_ok symtab st")
      case False
      with STMT_BYTE show ?thesis by (auto simp: emit_bytes_def fail_def values_ok_def)
    next
      case True
      with STMT_BYTE assms(1) show ?thesis
        by (intro put) (simp_all add: emit_bytes_def statement_bytes_def stmt_bytes_ok_def stmt_ok_def values_ok_def Let_def)
    qed
  qed (use assms(1) in \<open>auto simp: emit_bytes_def statement_bytes_def stmt_bytes_ok_def stmt_ok_def values_ok_def intro!: put\<close>)
qed

definition holds :: "buffer \<Rightarrow> u16 \<Rightarrow> u8 list \<Rightarrow> bool" where
  "holds buf a bs \<longleftrightarrow> (\<forall>x. unat a \<le> unat x \<and> unat x < unat a + length bs \<longrightarrow> buf x = bs ! (unat x - unat a))"

definition stmt_buffer :: "Statement \<Rightarrow> ParseResult \<Rightarrow> buffer" where
  "stmt_buffer st out = (if st_in_data st then pr_data out else pr_code out)"

lemma emit_statement_result:
  assumes "stmt_ok st" "fits st"
  shows "(\<exists>msg l. emit_statement st symtab out = Inl (AsmError msg l)) \<and> \<not> values_ok symtab st \<or>
    (\<exists>out'. emit_statement st symtab out = Inr out' \<and> values_ok symtab st \<and> stmt_bytes_ok symtab st \<and>
       holds (stmt_buffer st out') (st_address st) (statement_bytes symtab st) \<and>
       (\<forall>x. \<not> (stmt_start st \<le> unat x \<and> unat x < stmt_end st) \<longrightarrow>
          pr_code out' x = pr_code out x \<and> pr_data out' x = pr_data out x))"
  using emit_bytes_result [OF assms, of symtab "stmt_buffer st out"]
  by (auto simp: emit_statement_def stmt_buffer_def holds_def buf_put_def region_byte_def stmt_bytes_ok_def
      stmt_start_def stmt_end_def)

lemma emit_statements_result:
  assumes "\<forall>st \<in> set stmts. stmt_ok st \<and> fits st"
    and "sorted_wrt (\<lambda>s t. stmt_end s \<le> stmt_start t) (filter emits stmts)"
  shows "(\<exists>msg l. emit_statements stmts symtab out = Inl (AsmError msg l)) \<and> \<not> list_all (values_ok symtab) stmts \<or>
    (\<exists>out'. emit_statements stmts symtab out = Inr out' \<and> list_all (values_ok symtab) stmts \<and>
       (\<forall>st \<in> set stmts. stmt_bytes_ok symtab st \<and>
          (emits st \<longrightarrow> holds (stmt_buffer st out') (st_address st) (statement_bytes symtab st))) \<and>
       (\<forall>x. (\<forall>st \<in> set (filter emits stmts). unat x < stmt_start st) \<longrightarrow>
          pr_code out' x = pr_code out x \<and> pr_data out' x = pr_data out x))"
  using assms
proof (induction stmts arbitrary: out)
  case (Cons st stmts)
  have st: "stmt_ok st" "fits st" using Cons.prems(1) by auto
  have rest: "\<forall>st \<in> set stmts. stmt_ok st \<and> fits st"
    "sorted_wrt (\<lambda>s t. stmt_end s \<le> stmt_start t) (filter emits stmts)"
    using Cons.prems by (auto split: if_split_asm)
  show ?case
  proof (cases "emit_statement st symtab out")
    case (Inl e)
    then show ?thesis using emit_statement_result [OF st, of symtab out] by auto
  next
    case (Inr out1)
    with emit_statement_result [OF st, of symtab out]
    have one: "stmt_bytes_ok symtab st" "holds (stmt_buffer st out1) (st_address st) (statement_bytes symtab st)"
      "\<And>x. \<not> (stmt_start st \<le> unat x \<and> unat x < stmt_end st) \<Longrightarrow>
         pr_code out1 x = pr_code out x \<and> pr_data out1 x = pr_data out x" "values_ok symtab st" by auto
    show ?thesis
      using Cons.IH [OF rest, of out1]
    proof
      assume "(\<exists>msg l. emit_statements stmts symtab out1 = Inl (AsmError msg l)) \<and> \<not> list_all (values_ok symtab) stmts"
      with Inr show ?thesis by auto
    next
      assume "\<exists>out'. emit_statements stmts symtab out1 = Inr out' \<and> list_all (values_ok symtab) stmts \<and>
        (\<forall>st \<in> set stmts. stmt_bytes_ok symtab st \<and>
          (emits st \<longrightarrow> holds (stmt_buffer st out') (st_address st) (statement_bytes symtab st))) \<and>
        (\<forall>x. (\<forall>st \<in> set (filter emits stmts). unat x < stmt_start st) \<longrightarrow>
          pr_code out' x = pr_code out1 x \<and> pr_data out' x = pr_data out1 x)"
      then obtain out' where o: "emit_statements stmts symtab out1 = Inr out'"
        "\<forall>st \<in> set stmts. stmt_bytes_ok symtab st \<and>
          (emits st \<longrightarrow> holds (stmt_buffer st out') (st_address st) (statement_bytes symtab st))"
        "\<And>x. \<forall>st \<in> set (filter emits stmts). unat x < stmt_start st \<Longrightarrow>
          pr_code out' x = pr_code out1 x \<and> pr_data out' x = pr_data out1 x" "list_all (values_ok symtab) stmts" by blast
      have "holds (stmt_buffer st out') (st_address st) (statement_bytes symtab st)" if "emits st"
      proof -
        have "unat x < stmt_start t" if "unat x < unat (st_address st) + length (statement_bytes symtab st)"
          "t \<in> set (filter emits stmts)" for x t
          using that Cons.prems(2) \<open>emits st\<close> one(1) by (auto simp: stmt_bytes_ok_def stmt_end_def)
        then have "stmt_buffer st out' x = stmt_buffer st out1 x"
          if "unat x < unat (st_address st) + length (statement_bytes symtab st)" for x
          using o(3) [of x] that by (auto simp: stmt_buffer_def)
        then show ?thesis using one(2) by (auto simp: holds_def)
      qed
      moreover have "pr_code out' x = pr_code out x \<and> pr_data out' x = pr_data out x"
        if "\<forall>t \<in> set (filter emits (st # stmts)). unat x < stmt_start t" for x
      proof -
        have "\<not> (stmt_start st \<le> unat x \<and> unat x < stmt_end st)"
        proof (cases "emits st")
          case False
          then have "stmt_end st = stmt_start st" using st(1)
            by (auto simp: emits_def stmt_ok_def stmt_end_def stmt_start_def split: StmtKind.split_asm)
          then show ?thesis by simp
        qed (use that in auto)
        with one(3) [of x] o(3) [of x] that show ?thesis by (auto split: if_split_asm)
      qed
      ultimately show ?thesis using Inr o(1,2,4) one(1,4) by auto
    qed
  qed
qed simp

subsection \<open>The image of a program\<close>

lemma unat_diff_word: "b \<le> a \<Longrightarrow> unat (a - b :: u16) = unat a - unat b"
  by (simp add: unat_sub_if' word_le_nat_alt)

definition final_result :: "ParseResult \<Rightarrow> SectionState \<Rightarrow> ParseResult" where
  "final_result out sec = out\<lparr>pr_code_addr := sec_code_start_addr sec,
     pr_code_size := sec_code_cursor sec - sec_code_start_addr sec,
     pr_data_addr := sec_data_start_addr sec,
     pr_data_size := (if sec_data_started sec then sec_data_cursor sec - sec_data_start_addr sec else 0),
     pr_entry_point := sec_code_start_addr sec\<rparr>"

definition slice :: "buffer \<Rightarrow> u16 \<Rightarrow> u16 \<Rightarrow> u8 list" where
  "slice buf a n = map (\<lambda>i. buf (a + of_nat i)) [0..<unat n]"

lemma slice_length [simp]: "length (slice buf a n) = unat n"
  by (simp add: slice_def)

lemma region_slice:
  assumes "unat a \<le> unat x" "unat x < unat a + unat n"
  shows "region_byte a (slice buf a n) x = Some (buf x)"
proof -
  have "a + of_nat (unat x - unat a) = x" using assms(1) by (simp add: of_nat_diff)
  then show ?thesis using assms by (simp add: region_byte_def slice_def)
qed

text \<open>The bounds of the two regions at the end of pass 1; an unused data section is empty at 0.\<close>

lemma final_sections:
  assumes "sections_ok sec" "sec_code_started sec" 
  defines "ds \<equiv> (if sec_data_started sec then sec_data_cursor sec - sec_data_start_addr sec else 0)"
  shows "unat (sec_code_start_addr sec) + unat (sec_code_cursor sec - sec_code_start_addr sec) = unat (sec_code_cursor sec)"
    "0 < unat (sec_code_cursor sec - sec_code_start_addr sec)"
    "sec_data_started sec \<Longrightarrow> unat (sec_data_start_addr sec) + unat ds = unat (sec_data_cursor sec)"
    "sec_data_started sec \<Longrightarrow> unat (sec_code_cursor sec) \<le> unat (sec_data_start_addr sec)"
    "\<not> sec_data_started sec \<Longrightarrow> ds = 0"
  using assms(1,2) unat_diff_word [of "sec_code_start_addr sec" "sec_code_cursor sec"]
    unat_diff_word [of "sec_data_start_addr sec" "sec_data_cursor sec"]
  by (auto simp: sections_ok_def ds_def word_le_nat_alt word_less_nat_alt)

definition data_start_zero :: "SectionState \<Rightarrow> bool" where
  "data_start_zero sec \<longleftrightarrow> \<not> sec_data_started sec \<longrightarrow> sec_data_start_addr sec = 0"

lemma pass1_data_start_zero:
  assumes "pass1_step\<^sup>*\<^sup>* ([], symtab_init, section_zero) (stmts, symtab, sec)"
  shows "data_start_zero sec"
proof -
  have "pass1_step s s' \<Longrightarrow> data_start_zero (snd (snd s)) \<Longrightarrow> data_start_zero (snd (snd s'))" for s s'
    by (auto elim!: pass1_step.cases simp: data_start_zero_def place_section_def Let_def)
  with assms have "data_start_zero (snd (snd (stmts, symtab, sec)))"
    by (induction rule: rtranclp_induct) (auto simp: data_start_zero_def section_zero_def)
  then show ?thesis by simp
qed

lemma write_image_final:
  assumes "sections_ok sec" "sec_code_started sec" "data_start_zero sec"
  shows "\<exists>code dat. write_image (final_result out sec) =
      Inr (bvm_image (sec_code_start_addr sec) (sec_code_start_addr sec) code (sec_data_start_addr sec) dat) \<and>
    image_ok (sec_code_start_addr sec) (sec_code_start_addr sec) code (sec_data_start_addr sec) dat \<and>
    code = slice (pr_code out) (sec_code_start_addr sec) (sec_code_cursor sec - sec_code_start_addr sec) \<and>
    dat = slice (pr_data out) (sec_data_start_addr sec)
      (if sec_data_started sec then sec_data_cursor sec - sec_data_start_addr sec else 0)"
proof -
  note f = final_sections [OF assms(1,2)]
  let ?cs = "sec_code_cursor sec - sec_code_start_addr sec"
  let ?ds = "if sec_data_started sec then sec_data_cursor sec - sec_data_start_addr sec else 0"
  have b: "unat (sec_code_start_addr sec) + unat ?cs \<le> 65535" "unat (sec_data_start_addr sec) + unat ?ds \<le> 65535"
    using f unat_lt_65536 [of "sec_code_cursor sec"] unat_lt_65536 [of "sec_data_cursor sec"]
      unat_lt_65536 [of "sec_data_start_addr sec"] by (cases "sec_data_started sec"; simp)+
  have sl: "buf_slice (pr_code out) (sec_code_start_addr sec) ?cs = Inr (slice (pr_code out) (sec_code_start_addr sec) ?cs)"
    "buf_slice (pr_data out) (sec_data_start_addr sec) ?ds = Inr (slice (pr_data out) (sec_data_start_addr sec) ?ds)"
    using b by (auto simp: buf_slice_def slice_def)
  have img: "write_image (final_result out sec) =
      Inr (bvm_image (sec_code_start_addr sec) (sec_code_start_addr sec)
        (slice (pr_code out) (sec_code_start_addr sec) ?cs) (sec_data_start_addr sec)
        (slice (pr_data out) (sec_data_start_addr sec) ?ds))"
    using sl by (simp only: write_image_def final_result_def) (simp add: bvm_image_def write_u16_le_def le16_def)
  have "unat (sec_data_start_addr sec) + unat ?ds \<le> unat (sec_code_start_addr sec) \<or>
      unat (sec_code_start_addr sec) + unat ?cs \<le> unat (sec_data_start_addr sec)"
    using f assms(3) by (cases "sec_data_started sec") (auto simp: data_start_zero_def)
  then have "image_ok (sec_code_start_addr sec) (sec_code_start_addr sec)
      (slice (pr_code out) (sec_code_start_addr sec) ?cs) (sec_data_start_addr sec)
      (slice (pr_data out) (sec_data_start_addr sec) ?ds)"
    using b f(2) unat_lt_65536 [of ?cs] unat_lt_65536 [of ?ds] by (auto simp: image_ok_def)
  with img show ?thesis by blast
qed

lemma holds_mem_has:
  assumes "holds (mem_data mem) a bs" "unat a + length bs \<le> 65536"
  shows "mem_has mem a bs"
  using assms
proof (induction bs arbitrary: a)
  case (Cons b bs)
  have "mem_read8 mem a = b" using Cons.prems by (auto simp: holds_def mem_read8_def)
  moreover have "mem_has mem (a + 1) bs"
  proof (cases bs)
    case (Cons c cs)
    then have u: "unat (a + 1) = unat a + 1" using unat_add_nat [of a 1] Cons.prems(2) by simp
    have "holds (mem_data mem) (a + 1) bs" unfolding holds_def u
    proof (intro allI impI)
      fix x :: u16 assume "unat a + 1 \<le> unat x \<and> unat x < unat a + 1 + length bs"
      then show "mem_data mem x = bs ! (unat x - (unat a + 1))"
        using Cons.prems(1) [unfolded holds_def, rule_format, of x] by (auto simp: nth_Cons')
    qed
    with Cons.prems(2) u show ?thesis by (intro Cons.IH) simp_all
  qed simp
  ultimately show ?case by simp
qed simp

lemma loaded_memory_data:
  assumes "region_byte da dat x = Some b"
  shows "mem_data (loaded_memory ca code da dat) x = b"
  using assms by (simp add: loaded_memory_def)

lemma loaded_memory_code:
  assumes "region_byte ca code x = Some b" "region_byte da dat x = None"
  shows "mem_data (loaded_memory ca code da dat) x = b"
  using assms by (simp add: loaded_memory_def)

text \<open>A statement of a section is in memory after loading the two slices.\<close>

lemma loaded_statement:
  assumes "sections_ok sec" "sec_code_started sec" "in_section sec st"
    and "holds (stmt_buffer st out) (st_address st) bs" "length bs = nat (st_encoded_size st)"
    and "code = slice (pr_code out) (sec_code_start_addr sec) (sec_code_cursor sec - sec_code_start_addr sec)"
    and "dat = slice (pr_data out) (sec_data_start_addr sec)
      (if sec_data_started sec then sec_data_cursor sec - sec_data_start_addr sec else 0)"
  shows "holds (mem_data (loaded_memory (sec_code_start_addr sec) code (sec_data_start_addr sec) dat)) (st_address st) bs"
  unfolding holds_def
proof (intro allI impI)
  fix x :: u16 assume x: "unat (st_address st) \<le> unat x \<and> unat x < unat (st_address st) + length bs"
  note f = final_sections [OF assms(1,2)]
  have buf: "stmt_buffer st out x = bs ! (unat x - unat (st_address st))" using assms(4) x by (simp add: holds_def)
  have "mem_data (loaded_memory (sec_code_start_addr sec) code (sec_data_start_addr sec) dat) x = stmt_buffer st out x"
  proof (cases "st_in_data st")
    case True
    with assms(3,5) x f(3) show ?thesis
      unfolding assms(7) by (intro loaded_memory_data, subst region_slice)
        (auto simp: in_section_def stmt_start_def stmt_end_def stmt_buffer_def)
  next
    case False
    then have c: "unat (sec_code_start_addr sec) \<le> unat x" "unat x < unat (sec_code_cursor sec)"
      using assms(3,5) x by (auto simp: in_section_def stmt_start_def stmt_end_def)
    have "region_byte (sec_data_start_addr sec) dat x = None"
      using c f(4,5) by (cases "sec_data_started sec") (auto simp: region_byte_def assms(7))
    then show ?thesis using False c f(1) unfolding assms(6)
      by (intro loaded_memory_code, subst region_slice) (auto simp: stmt_buffer_def)
  qed
  with buf show "mem_data (loaded_memory (sec_code_start_addr sec) code (sec_data_start_addr sec) dat) x =
      bs ! (unat x - unat (st_address st))" by simp
qed

lemma loaded_vm_fields [simp]:
  "vm_memory (loaded_vm e ca code da dat) = loaded_memory ca code da dat"
  "cpu_pc (vm_cpu (loaded_vm e ca code da dat)) = e"
  by (simp_all add: loaded_vm_def)

lemma assemble_statements:
  assumes "lex source = Inr toks"
    and "build_statements [] symtab_init section_zero toks = Some (Inr (stmts, symtab, sec))"
  shows "assemble source = Some (case emit_statements stmts symtab parse_result_zero of
     Inl e \<Rightarrow> Inl (asm_message e) | Inr out \<Rightarrow> write_image (final_result out sec))"
  using assms by (auto simp: assemble_def assemble_tokens_def final_result_def asm_bind_def split: sum.split)

lemma statements_in_memory:
  assumes lay: "layout stmts sec" "sec_code_started sec" "\<forall>st \<in> set stmts. stmt_ok st \<and> fits st"
    and emit: "emit_statements stmts symtab parse_result_zero = Inr out"
    and slices: "code = slice (pr_code out) (sec_code_start_addr sec) (sec_code_cursor sec - sec_code_start_addr sec)"
      "dat = slice (pr_data out) (sec_data_start_addr sec)
        (if sec_data_started sec then sec_data_cursor sec - sec_data_start_addr sec else 0)"
    and st: "st \<in> set stmts" "emits st"
    and mem: "mem = loaded_memory (sec_code_start_addr sec) code (sec_data_start_addr sec) dat"
  shows "mem_has mem (st_address st) (statement_bytes symtab st)"
    "st_kind st = STMT_INSTRUCTION \<Longrightarrow> instruction_decode mem (st_address st) =
       Inr (resolved_instruction symtab st, st_address st + of_int (st_encoded_size st))"
proof -
  have sec: "sections_ok sec" "in_section sec st" using lay(1) st by (simp_all add: layout_def)
  have out: "stmt_bytes_ok symtab st" "holds (stmt_buffer st out) (st_address st) (statement_bytes symtab st)"
    using emit_statements_result [of stmts symtab parse_result_zero] lay emit st by (auto simp: layout_def)
  have len: "length (statement_bytes symtab st) = nat (st_encoded_size st)" using out(1) by (simp add: stmt_bytes_ok_def)
  have "unat (st_address st) + nat (st_encoded_size st) \<le> 65536"
    using lay(3) st(1) by (auto simp: fits_def stmt_end_def)
  then show has: "mem_has mem (st_address st) (statement_bytes symtab st)"
    using loaded_statement [OF sec(1) lay(2) sec(2) out(2) len slices] len holds_mem_has mem by simp
  have "0 \<le> st_encoded_size st" using stmt_ok_size lay(3) st(1) by blast
  then show "st_kind st = STMT_INSTRUCTION \<Longrightarrow> instruction_decode mem (st_address st) =
       Inr (resolved_instruction symtab st, st_address st + of_int (st_encoded_size st))"
    using has out(1) by (simp add: instruction_decode_iff stmt_bytes_ok_def statement_bytes_def)
qed

text \<open>
  C2: assembling and loading a program puts it in memory. When pass 1 succeeds and every statement
  ends below 65536, assembly never writes outside its buffers. It reports an error, with its
  line, exactly when a statement names an undefined label or has a value out of range;
  otherwise it returns an image that the loader accepts; the loaded machine starts at the first statement of the code, memory holds the bytes
  of every statement at the address pass 1 gave it, and the decoder reads there, for every
  instruction statement, the instruction it denotes with its labels resolved.
\<close>

theorem assembled_program_loads:
  assumes "lex source = Inr toks"
    and "build_statements [] symtab_init section_zero toks = Some (Inr (stmts, symtab, sec))"
    and "\<forall>st \<in> set stmts. fits st"
  shows "if \<exists>st \<in> set stmts. \<not> values_ok symtab st
    then \<exists>msg line. assemble source = Some (Inl (AsmError msg line))
    else (\<exists>image vm'. assemble source = Some (Inr image) \<and> vm_load vm image = Some (VM_OK, vm') \<and>
       cpu_pc (vm_cpu vm') = sec_code_start_addr sec \<and>
       (\<forall>st \<in> set stmts. emits st \<longrightarrow> mem_has (vm_memory vm') (st_address st) (statement_bytes symtab st)) \<and>
       (\<forall>st \<in> set stmts. st_kind st = STMT_INSTRUCTION \<longrightarrow>
          instruction_decode (vm_memory vm') (st_address st) =
            Inr (resolved_instruction symtab st, st_address st + of_int (st_encoded_size st))))"
proof -
  note steps = build_statements_steps [OF assms(2)]
  have lay: "layout stmts sec" "\<forall>st \<in> set stmts. stmt_ok st \<and> fits st" "sec_code_started sec" "data_start_zero sec"
    using pass1_layout [OF conjunct1 [OF steps] assms(3)] conjunct2 [OF steps]
      pass1_data_start_zero [OF conjunct1 [OF steps]] assms(3) by auto
  have sec: "sections_ok sec" using lay(1) by (simp add: layout_def)
  show ?thesis
  proof (cases "emit_statements stmts symtab parse_result_zero")
    case (Inl e)
    then show ?thesis
      using emit_statements_result [of stmts symtab parse_result_zero] lay
      by (auto simp: assemble_statements [OF assms(1,2)] asm_message_def layout_def list_all_iff)
  next
    case (Inr out)
    let ?start = "sec_code_start_addr sec" and ?data = "sec_data_start_addr sec"
    from write_image_final [OF sec lay(3,4), of out] obtain code dat where
      img: "write_image (final_result out sec) = Inr (bvm_image ?start ?start code ?data dat)"
        "image_ok ?start ?start code ?data dat"
      and slices: "code = slice (pr_code out) ?start (sec_code_cursor sec - ?start)"
        "dat = slice (pr_data out) ?data (if sec_data_started sec then sec_data_cursor sec - ?data else 0)" by blast
    note mem = statements_in_memory [OF lay(1,3,2) Inr slices]
    have "assemble source = Some (Inr (bvm_image ?start ?start code ?data dat))"
      using img(1) Inr by (simp add: assemble_statements [OF assms(1,2)])
    moreover have "vm_load vm (bvm_image ?start ?start code ?data dat) = Some (VM_OK, loaded_vm ?start ?start code ?data dat)"
      using vm_load_image [OF img(2), of vm "[]"] by simp
    moreover have "\<not> (\<exists>st \<in> set stmts. \<not> values_ok symtab st)"
      using emit_statements_result [of stmts symtab parse_result_zero] lay Inr by (auto simp: layout_def list_all_iff)
    ultimately show ?thesis using mem by (simp only: if_False) (intro exI conjI, auto simp: emits_def)
  qed
qed

definition nop_token_statement :: Statement where
  "nop_token_statement = placed section_zero (instruction_statement OP_NOP 1 0 operand_zero operand_zero MODE_NONE MODE_NONE) 2"

lemma lex_nop: "lex ''NOP'' = Inr [text_tok TOK_IDENT 1 ''NOP'', simple_tok TOK_EOF 1]"
  by code_simp

lemma build_nop: "build_statements [] symtab_init section_zero [text_tok TOK_IDENT 1 ''NOP'', simple_tok TOK_EOF 1] =
   Some (Inr ([nop_token_statement], symtab_init, place_section section_zero 2))"
  by code_simp

theorem assembled_program_loads_witness:
  "\<exists>image vm'. assemble ''NOP'' = Some (Inr image) \<and> vm_load (machine_with []) image = Some (VM_OK, vm') \<and>
     mem_has (vm_memory vm') 0 [0, 0]"
proof -
  have n: "emits nop_token_statement" "st_address nop_token_statement = 0" "st_encoded_size nop_token_statement = 2"
    "statement_bytes symtab_init nop_token_statement = [0, 0]" "values_ok symtab_init nop_token_statement"
    by code_simp+
  then have "fits nop_token_statement" by (simp add: fits_def stmt_end_def)
  with assembled_program_loads [OF lex_nop build_nop, of "machine_with []"] n show ?thesis by auto
qed

subsection \<open>Labels\<close>

definition label_next :: "Statement \<Rightarrow> Statement \<Rightarrow> bool" where
  "label_next s t \<longleftrightarrow> (st_kind s = STMT_LABEL \<and> (emits t \<or> st_kind t = STMT_LABEL) \<longrightarrow> st_address t = st_address s)"

definition labels_adjacent :: "Statement list \<Rightarrow> SectionState \<Rightarrow> bool" where
  "labels_adjacent stmts sec \<longleftrightarrow> successively label_next stmts \<and>
     (stmts \<noteq> [] \<and> st_kind (last stmts) = STMT_LABEL \<longrightarrow> st_address (last stmts) = active_cursor sec)"

lemma labels_adjacent_step:
  "pass1_step s s' \<Longrightarrow> labels_adjacent (fst s) (snd (snd s)) \<Longrightarrow> labels_adjacent (fst s') (snd (snd s'))"
  by (erule pass1_step.cases)
    (auto simp: labels_adjacent_def successively_append_iff label_next_def emits_def)

lemma labels_adjacent_run:
  assumes "pass1_step\<^sup>*\<^sup>* ([], symtab_init, section_zero) (stmts, symtab, sec)"
  shows "labels_adjacent stmts sec"
proof -
  have "labels_adjacent (fst (stmts, symtab, sec)) (snd (snd (stmts, symtab, sec)))"
    using assms by (induction rule: rtranclp_induct) (auto simp: labels_adjacent_def dest: labels_adjacent_step)
  then show ?thesis by simp
qed

lemma labels_ok_step:
  "pass1_step s s' \<Longrightarrow> labels_ok (fst s) (fst (snd s)) \<Longrightarrow> labels_ok (fst s') (fst (snd s'))"
  by (erule pass1_step.cases) (auto simp: labels_ok_other intro: labels_ok_define)

lemma labels_ok_init: "labels_ok [] symtab_init"
  by (simp add: labels_ok_def symtab.lookup_empty)

definition is_label :: "Statement \<Rightarrow> bool" where
  "is_label st \<longleftrightarrow> st_kind st = STMT_LABEL"

definition label_names :: "Statement list \<Rightarrow> string list" where
  "label_names stmts = map st_label_name (filter is_label stmts)"

lemma labels_distinct_step:
  assumes "pass1_step s s'" "labels_ok (fst s) (fst (snd s))" "distinct (label_names (fst s))"
  shows "distinct (label_names (fst s'))"
  using assms
proof cases
  case (step_label symtab name sec symtab' stmts line)
  have new: "symtab_lookup symtab name = None" using symtab.define_true(1) [OF step_label(3)] .
  have "\<not> (is_label st \<and> st_label_name st = name)" if "st \<in> set stmts" for st
  proof
    assume "is_label st \<and> st_label_name st = name"
    with that assms(2) step_label(1) have "symtab_lookup symtab name = Some (st_address st)"
      by (auto simp: labels_ok_def is_label_def)
    with new show False by simp
  qed
  then have "name \<notin> set (label_names stmts)" by (auto simp: label_names_def)
  then show ?thesis
    using assms(3) step_label(1,2) by (simp add: label_names_def is_label_def label_statement_def statement_zero_def)
qed (auto simp: label_names_def is_label_def)

lemma labels_run:
  assumes "pass1_step\<^sup>*\<^sup>* ([], symtab_init, section_zero) (stmts, symtab, sec)"
  shows "labels_ok stmts symtab \<and> distinct (label_names stmts)"
proof -
  let ?s = "(stmts, symtab, sec)"
  have "labels_ok (fst ?s) (fst (snd ?s)) \<and> distinct (label_names (fst ?s))"
    using assms
    by (induction rule: rtranclp_induct)
      (auto simp: labels_ok_init label_names_def [of "[]"] dest: labels_ok_step labels_distinct_step)
  then show ?thesis by simp
qed

text \<open>
  C9: a label denotes the address of what follows it. After pass 1 no two label statements have
  the same name; an operand that names a label (alone or in brackets) resolves to a value
  exactly when a label statement of that name exists, and the value is that statement's
  address; and a statement placed right after a label is at the label's address.
\<close>

theorem labels_resolve:
  assumes "build_statements [] symtab_init section_zero toks = Some (Inr (stmts, symtab, sec))"
  shows "distinct (label_names stmts) \<and>
    (\<forall>op v. po_kind op \<in> {OPKIND_LABEL, OPKIND_MEM_LABEL} \<longrightarrow>
      (resolve_value op symtab = Inr v \<longleftrightarrow>
        (\<exists>l \<in> set stmts. is_label l \<and> st_label_name l = po_label op \<and> v = uint (st_address l)))) \<and>
    (\<forall>pre l st post. stmts = pre @ l # st # post \<and> is_label l \<and> (emits st \<or> is_label st) \<longrightarrow>
      st_address st = st_address l)"
proof -
  note run = conjunct1 [OF build_statements_steps [OF assms]]
  note ok = labels_run [OF run]
  have lookup: "symtab_lookup symtab name = Some a \<longleftrightarrow>
      (\<exists>l \<in> set stmts. is_label l \<and> st_label_name l = name \<and> st_address l = a)" for name a
    using ok by (simp add: labels_ok_def is_label_def)
  have "resolve_value op symtab = Inr v \<longleftrightarrow>
      (\<exists>l \<in> set stmts. is_label l \<and> st_label_name l = po_label op \<and> v = uint (st_address l))"
    if "po_kind op \<in> {OPKIND_LABEL, OPKIND_MEM_LABEL}" for op v
  proof -
    have "resolve_value op symtab = Inr v \<longleftrightarrow> (\<exists>a. symtab_lookup symtab (po_label op) = Some a \<and> v = uint a)"
      using that by (auto simp: resolve_value_def split: option.split)
    then show ?thesis unfolding lookup by blast
  qed
  moreover have "labels_adjacent stmts sec" by (rule labels_adjacent_run [OF run])
  ultimately show ?thesis
    using ok by (auto simp: labels_adjacent_def successively_append_iff label_next_def is_label_def)
qed

lemma build_label: "build_statements [] symtab_init section_zero
    [text_tok TOK_IDENT 1 ''A'', simple_tok TOK_COLON 1, text_tok TOK_IDENT 1 ''NOP'', simple_tok TOK_EOF 1] =
   Some (Inr ([label_statement ''A'' 1 0, nop_token_statement],
     \<lparr>symtab_symbols = [\<lparr>sym_name = ''A'', sym_address = 0\<rparr>]\<rparr>, place_section section_zero 2))"
  by code_simp

definition label_operand :: ParsedOperand where
  "label_operand = operand_zero\<lparr>po_kind := OPKIND_LABEL, po_label := ''A''\<rparr>"

theorem labels_resolve_witness:
  "resolve_value label_operand \<lparr>symtab_symbols = [\<lparr>sym_name = ''A'', sym_address = 0\<rparr>]\<rparr> = Inr 0 \<and>
   st_address nop_token_statement = 0"
proof -
  note l = labels_resolve [OF build_label]
  have f: "emits nop_token_statement" "is_label (label_statement ''A'' 1 0)" "st_label_name (label_statement ''A'' 1 0) = ''A''"
    "st_address (label_statement ''A'' 1 0) = 0" "po_kind label_operand = OPKIND_LABEL" "po_label label_operand = ''A''"
    by code_simp+
  then have "st_address nop_token_statement = 0"
    using l [THEN conjunct2, THEN conjunct2, rule_format, of "[]" "label_statement ''A'' 1 0" nop_token_statement "[]"] by simp
  moreover have "resolve_value label_operand \<lparr>symtab_symbols = [\<lparr>sym_name = ''A'', sym_address = 0\<rparr>]\<rparr> = Inr 0"
    using l [THEN conjunct2, THEN conjunct1, rule_format, of label_operand 0] f by auto
  ultimately show ?thesis by simp
qed

end
