(* ===== verification/Bvm_Roundtrip.thy ===== *)
theory Bvm_Roundtrip
  imports Bvm_Listing Bvm_Program
begin

text \<open>
  The guarantee of the disassembler (src/disassembler.c with src/assembler.c): assembling the
  text it prints gives the image back. The items of a listing are followed through both passes
  of the assembler. The images for which it does not hold are characterised exactly.
\<close>

unbundle bit_operations_syntax

subsection \<open>Parsing what was lexed\<close>

definition operand_parsed :: "nat \<Rightarrow> u8 \<Rightarrow> Operand \<Rightarrow> ParsedOperand" where
  "operand_parsed l legal op =
     (let z = operand_zero\<lparr>po_line := l\<rparr>; v = uint (op_value op)
      in case op_mode op of
        MODE_REG \<Rightarrow> z\<lparr>po_kind := OPKIND_REG, po_reg_index := v\<rparr>
      | MODE_REG_INDIRECT \<Rightarrow> z\<lparr>po_kind := OPKIND_REG_INDIRECT, po_reg_index := v\<rparr>
      | MODE_IMM16 \<Rightarrow> z\<lparr>po_kind := OPKIND_NUMBER, po_number := v\<rparr>
      | MODE_IMM8 \<Rightarrow> z\<lparr>po_kind := OPKIND_NUMBER, po_number := v\<rparr>
      | MODE_MEM_DIRECT \<Rightarrow>
          z\<lparr>po_kind := if legal AND MODE_BIT MODE_REG_INDIRECT \<noteq> 0 then OPKIND_MEM_NUMBER else OPKIND_NUMBER,
            po_number := v\<rparr>
      | _ \<Rightarrow> operand_zero)"

lemma cur_advance [simp]: "cur (t # ts) = t" "advance (t # u # ts) = u # ts" "ts \<noteq> [] \<Longrightarrow> advance (t # ts) = ts"
  by (simp_all add: cur_def advance_def Suc_lessI)

lemma register_text: "(v :: u16) \<le> 7 \<Longrightarrow> try_parse_register (CHR ''R'' # fmt_u (unat v)) = Some (uint v)"
proof -
  assume "v \<le> 7"
  then have "unat v \<le> 7" by (simp add: word_le_nat_alt)
  moreover from this have "fmt_u (unat v) = [digit_char (unat v)]" by (simp add: fmt_u_def show_base.simps [of 10 "unat v"])
  ultimately show ?thesis by (simp add: try_parse_register_def Let_def)
qed

lemma syscall_text:
  "syscall_name_for v = Some s \<Longrightarrow> try_parse_register s = None \<and> try_syscall_name s = Some (uint v)"
  by (auto simp: syscall_name_for_def try_parse_register_def try_syscall_name_def SYSCALLS_def ctype_defs
      split: if_split_asm)

lemma parse_operand_text:
  assumes "operand_wf op" "op_mode op \<noteq> MODE_NONE"
  shows "parse_operand (operand_toks l opcode legal op @ t # ts) opcode = Inr (operand_parsed l legal op, t # ts)"
  using assms
  by (cases "op_mode op")
    (auto simp: operand_toks_def operand_parsed_def parse_operand_def operand_wf_def Let_def register_text syscall_text
      operand_zero_def split: option.split)

text \<open>The masks of the legality table, and the mode the parser chooses for a printed operand.\<close>

definition table_masks :: "u8 set" where
  "table_masks = {MODES_NONE, MODES_REG, MODES_REG_IMM16, MODES_MEM, MODES_MEM_DIRECT, MODES_IMM8}"

lemma table_masks_info: "info_valid (opcode_info op) \<Longrightarrow>
    info_op1_modes (opcode_info op) \<in> table_masks \<and> info_op2_modes (opcode_info op) \<in> table_masks"
  by (cases op) (auto simp: table_masks_def)

lemmas mask_defs = MODES_NONE_def MODES_REG_def MODES_REG_IMM16_def MODES_MEM_def MODES_MEM_DIRECT_def
  MODES_IMM8_def MODE_BIT_def

lemma legal_none:
  assumes "legal \<in> table_masks" "mode_is_legal m legal" "m \<in> defined_modes"
  shows "m = MODE_NONE \<longleftrightarrow> legal = MODE_BIT MODE_NONE"
  using assms by (auto simp: table_masks_def mode_is_legal_def mask_defs defined_modes_def)

lemma operand_wf_defined: "operand_wf op \<Longrightarrow> op_mode op \<in> defined_modes"
  by (cases "op_mode op") (auto simp: operand_wf_def defined_modes_def)

lemma resolve_parsed:
  assumes "operand_wf op" "mode_is_legal (op_mode op) legal" "legal \<in> table_masks" "op_mode op \<noteq> MODE_NONE"
  shows "resolve_operand_mode (operand_parsed l legal op) legal = Inr (op_mode op)"
proof -
  have reg: "uint v \<le> 7" if "v \<le> 7" for v :: u16 using that by (simp add: word_le_def)
  show ?thesis
    using assms reg [of "op_value op"]
    by (cases "op_mode op")
      (auto simp: operand_parsed_def resolve_operand_mode_def operand_wf_def table_masks_def mode_is_legal_def mask_defs Let_def)
qed

definition instr_operand :: "nat \<Rightarrow> u8 \<Rightarrow> Operand \<Rightarrow> ParsedOperand" where
  "instr_operand l legal op = (if op_mode op = MODE_NONE then operand_zero else operand_parsed l legal op)"

definition instr_stmt :: "nat \<Rightarrow> Instruction \<Rightarrow> Statement" where
  "instr_stmt l i =
     (let info = opcode_info (instr_opcode i)
      in instruction_statement (instr_opcode i) l (expected_operands (instr_opcode i))
           (instr_operand l (info_op1_modes info) (instr_op1 i)) (instr_operand l (info_op2_modes info) (instr_op2 i))
           (op_mode (instr_op1 i)) (op_mode (instr_op2 i)))"

lemma expected_operands_wf:
  assumes "instr_wf i"
  shows "expected_operands (instr_opcode i) =
    (if op_mode (instr_op1 i) = MODE_NONE then 0 else if op_mode (instr_op2 i) = MODE_NONE then 1 else 2)"
    "op_mode (instr_op1 i) = MODE_NONE \<Longrightarrow> op_mode (instr_op2 i) = MODE_NONE"
proof -
  let ?info = "opcode_info (instr_opcode i)"
  from assms have v: "info_valid ?info" "mode_is_legal (op_mode (instr_op1 i)) (info_op1_modes ?info)"
    "mode_is_legal (op_mode (instr_op2 i)) (info_op2_modes ?info)"
    "op_mode (instr_op1 i) \<in> defined_modes" "op_mode (instr_op2 i) \<in> defined_modes"
    by (auto simp: instr_wf_def Let_def operand_wf_defined)
  note n = legal_none [OF conjunct1 [OF table_masks_info [OF v(1)]] v(2,4)]
    legal_none [OF conjunct2 [OF table_masks_info [OF v(1)]] v(3,5)]
  show "expected_operands (instr_opcode i) =
    (if op_mode (instr_op1 i) = MODE_NONE then 0 else if op_mode (instr_op2 i) = MODE_NONE then 1 else 2)"
    "op_mode (instr_op1 i) = MODE_NONE \<Longrightarrow> op_mode (instr_op2 i) = MODE_NONE"
    using n opcode_modes_none [OF v(1)] by (simp_all add: expected_operands_def opcode_modes_table [OF v(1)])
qed

lemma to_lower_upper:
  "to_lower CHR ''A'' = CHR ''a''"  "to_lower CHR ''B'' = CHR ''b''"  "to_lower CHR ''C'' = CHR ''c''"
  "to_lower CHR ''D'' = CHR ''d''"  "to_lower CHR ''E'' = CHR ''e''"  "to_lower CHR ''G'' = CHR ''g''"
  "to_lower CHR ''H'' = CHR ''h''"  "to_lower CHR ''I'' = CHR ''i''"  "to_lower CHR ''J'' = CHR ''j''"
  "to_lower CHR ''L'' = CHR ''l''"  "to_lower CHR ''M'' = CHR ''m''"  "to_lower CHR ''N'' = CHR ''n''"
  "to_lower CHR ''O'' = CHR ''o''"  "to_lower CHR ''P'' = CHR ''p''"  "to_lower CHR ''R'' = CHR ''r''"
  "to_lower CHR ''S'' = CHR ''s''"  "to_lower CHR ''T'' = CHR ''t''"  "to_lower CHR ''U'' = CHR ''u''"
  "to_lower CHR ''V'' = CHR ''v''"  "to_lower CHR ''X'' = CHR ''x''"  "to_lower CHR ''Y'' = CHR ''y''"
  "to_lower CHR ''Z'' = CHR ''z''"
  by (code_simp)+

lemma mnemonic_lookup: "mnemonic_for op = Some s \<Longrightarrow> lookup_mnemonic s = Some op"
  by (elim mnemonic_for.elims; hypsubst?; simp add: lookup_mnemonic_def MNEMONICS_def to_lower_upper)

lemma operand_toks_type:
  assumes "operand_wf op" "op_mode op \<noteq> MODE_NONE"
  shows "tok_type (cur (operand_toks l opcode legal op @ ts)) \<notin> {TOK_NEWLINE, TOK_EOF, TOK_COLON}"
proof -
  have "tok_type (cur (operand_toks l opcode legal op @ ts)) \<in> {TOK_IDENT, TOK_NUMBER, TOK_LBRACKET}"
    using assms by (cases "op_mode op") (auto simp: operand_toks_def Let_def operand_wf_def split: option.split)
  then show ?thesis by auto
qed

lemma parse_operands_text:
  assumes "instr_wf i" "ts \<noteq> []"
  shows "parse_operands (tl (instr_toks l i) @ simple_tok TOK_NEWLINE l # ts) (instr_opcode i) =
    Inr (expected_operands (instr_opcode i),
      instr_operand l (info_op1_modes (opcode_info (instr_opcode i))) (instr_op1 i),
      instr_operand l (info_op2_modes (opcode_info (instr_opcode i))) (instr_op2 i), simple_tok TOK_NEWLINE l # ts)"
proof -
  from assms have w: "operand_wf (instr_op1 i)" "operand_wf (instr_op2 i)" by (auto simp: instr_wf_def Let_def)
  note e = expected_operands_wf [OF assms(1)]
  have adv: "advance (simple_tok TOK_COMMA l # operand_toks l opcode legal (instr_op2 i) @ us) =
      operand_toks l opcode legal (instr_op2 i) @ us" if "us \<noteq> []" for opcode legal us
    using that by (simp add: advance_def)
  show ?thesis
    using e w parse_operand_text [OF w(1)] parse_operand_text [OF w(2)] operand_toks_type [OF w(1), simplified]
    by (auto simp: parse_operands_def instr_toks_def instr_operand_def Let_def adv)
qed

lemma parse_instruction_text:
  assumes "instr_wf i" "ts \<noteq> []"
  shows "parse_instruction_statement stmts sec (tl (instr_toks l i) @ simple_tok TOK_NEWLINE l # ts) (instr_opcode i) l =
    Inr (place_statement stmts sec (simple_tok TOK_NEWLINE l # ts) (instr_stmt l i)
      (2 + mode_byte_size (op_mode (instr_op1 i)) + mode_byte_size (op_mode (instr_op2 i))))"
proof -
  let ?op = "instr_opcode i" and ?info = "opcode_info (instr_opcode i)"
  from assms(1) have v: "info_valid ?info" "mode_is_legal (op_mode (instr_op1 i)) (info_op1_modes ?info)"
    "mode_is_legal (op_mode (instr_op2 i)) (info_op2_modes ?info)" "operand_wf (instr_op1 i)" "operand_wf (instr_op2 i)"
    by (auto simp: instr_wf_def Let_def)
  note masks = table_masks_info [OF v(1)]
  note e = expected_operands_wf [OF assms(1)]
  have m: "statement_mode (expected_operands ?op \<ge> 1) (instr_operand l (info_op1_modes ?info) (instr_op1 i)) (info_op1_modes ?info)
      = Inr (op_mode (instr_op1 i))"
    "statement_mode (expected_operands ?op \<ge> 2) (instr_operand l (info_op2_modes ?info) (instr_op2 i)) (info_op2_modes ?info)
      = Inr (op_mode (instr_op2 i))"
    using e resolve_parsed [OF v(4,2) conjunct1 [OF masks]] resolve_parsed [OF v(5,3) conjunct2 [OF masks]]
    by (auto simp: statement_mode_def instr_operand_def)
  have modes: "(case instruction_opcode_modes ?op of Some ms \<Rightarrow> ms | None \<Rightarrow> (0, 0)) = (info_op1_modes ?info, info_op2_modes ?info)"
    using opcode_modes_table [OF v(1)] by (simp add: opcode_modes_def)
  have ex: "(if info_op1_modes ?info = MODE_BIT MODE_NONE then 0 else if info_op2_modes ?info = MODE_BIT MODE_NONE then 1 else 2 :: int)
      = expected_operands ?op"
    by (simp add: expected_operands_def opcode_modes_table [OF v(1)])
  show ?thesis
    unfolding parse_instruction_statement_def parse_operands_text [OF assms] modes asm_bind_Inr prod.case Let_def ex m
    by (simp add: place_statement_def instr_stmt_def instruction_statement_def Let_def)
qed

subsection \<open>The items through both passes\<close>

fun item_stmt :: "nat \<Rightarrow> dis_item \<Rightarrow> Statement" where
  "item_stmt l (ItemInstr i) = instr_stmt l i"
| "item_stmt l (ItemByte b) = statement_zero\<lparr>st_kind := STMT_BYTE, st_line := l,
     st_byte_operand := operand_zero\<lparr>po_line := l, po_kind := OPKIND_NUMBER, po_number := uint b\<rparr>\<rparr>"

definition item_size :: "dis_item \<Rightarrow> int" where
  "item_size it = int (length (item_bytes it))"

lemma encode_size:
  assumes "instr_wf i"
  shows "int (length (encode_instruction i)) = 2 + mode_byte_size (op_mode (instr_op1 i)) + mode_byte_size (op_mode (instr_op2 i))"
proof -
  from assms have w: "operand_wf (instr_op1 i)" "operand_wf (instr_op2 i)" by (auto simp: instr_wf_def Let_def)
  show ?thesis
    using encode_operand_size [OF w(1)] encode_operand_size [OF w(2)] mode_byte_size_nonneg
    by (simp add: encode_instruction_def)
qed

lemma ident_equals_directives:
  "ident_equals ''byte'' ''byte''" "\<not> ident_equals ''byte'' ''org''" "\<not> ident_equals ''byte'' ''data''"
  "\<not> ident_equals ''byte'' ''string''" "\<not> ident_equals ''byte'' ''word''"
  "ident_equals ''org'' ''org''" "ident_equals ''data'' ''data''" "\<not> ident_equals ''data'' ''org''"
  by (code_simp)+

lemma parse_directive_select:
  "parse_directive_statement stmts sec (t # u # ts) ''byte'' l = parse_byte stmts sec (u # ts) l"
  "parse_directive_statement stmts sec (t # u # ts) ''org'' l = parse_org stmts sec (u # ts) l"
  "parse_directive_statement stmts sec (t # u # ts) ''data'' l = parse_data stmts sec (u # ts) l"
  by (simp_all only: parse_directive_statement_def Let_def cur_advance ident_equals_directives if_True if_False simp_thms)

lemma parse_line_directive:
  "parse_line stmts symtab sec (text_tok TOK_DIRECTIVE l s # ts) =
     asm_bind (parse_directive_statement stmts sec (text_tok TOK_DIRECTIVE l s # ts) s l) (\<lambda>r. Inr (symtab, r))"
  by (simp add: parse_line_def parse_line_body_def)

lemma parse_item:
  assumes "item_wf it" "ts \<noteq> []"
  shows "parse_line stmts symtab sec (item_toks l it @ ts) =
    Inr (symtab, stmts @ [placed sec (item_stmt l it) (item_size it)], place_section sec (item_size it), simple_tok TOK_NEWLINE l # ts)"
proof (cases it)
  case (ItemInstr i)
  with assms have i: "instr_wf i" by simp
  then have v: "info_valid (opcode_info (instr_opcode i))" by (simp add: instr_wf_def Let_def)
  from mnemonic_known [OF v] obtain s where s: "mnemonic_for (instr_opcode i) = Some s" by blast
  let ?rest = "tl (instr_toks l i) @ simple_tok TOK_NEWLINE l # ts"
  have toks: "item_toks l it @ ts = text_tok TOK_IDENT l s # ?rest"
    by (simp add: ItemInstr instr_toks_def s Let_def)
  have nocolon: "tok_type (cur ?rest) \<noteq> TOK_COLON"
  proof (cases "op_mode (instr_op1 i) = MODE_NONE")
    case True
    then show ?thesis by (simp add: instr_toks_def Let_def)
  next
    case False
    have "operand_wf (instr_op1 i)" using i by (simp add: instr_wf_def Let_def)
    note ty = operand_toks_type [OF this False]
    show ?thesis using False ty by (simp add: instr_toks_def Let_def)
  qed
  have adv: "advance (text_tok TOK_IDENT l s # ?rest) = ?rest" by simp
  have label: "parse_label stmts symtab sec (text_tok TOK_IDENT l s # ?rest) = Inr None"
    using nocolon by (simp only: parse_label_def Let_def adv if_False)
  have "parse_line_body stmts symtab sec (text_tok TOK_IDENT l s # ?rest) =
      Inr (symtab, place_statement stmts sec (simple_tok TOK_NEWLINE l # ts) (instr_stmt l i) (item_size it))"
    using parse_instruction_text [OF i assms(2), of stmts sec l] mnemonic_lookup [OF s]
    unfolding parse_line_body_def Let_def adv cur_advance(1)
    by (simp add: ItemInstr item_size_def encode_size [OF i])
  then show ?thesis
    unfolding toks parse_line_def label cur_advance(1) by (simp add: ItemInstr place_statement_eq)
next
  case (ItemByte b)
  then show ?thesis
    by (simp add: parse_line_directive parse_directive_select parse_byte_def parse_operand_def Let_def place_statement_eq
        item_size_def operand_zero_def)
qed

fun items_stmts :: "SectionState \<Rightarrow> nat \<Rightarrow> dis_item list \<Rightarrow> Statement list" where
  "items_stmts sec l [] = []"
| "items_stmts sec l (it # its) =
     placed sec (item_stmt l it) (item_size it) # items_stmts (place_section sec (item_size it)) (l + 1) its"

fun items_section :: "SectionState \<Rightarrow> dis_item list \<Rightarrow> SectionState" where
  "items_section sec [] = sec"
| "items_section sec (it # its) = items_section (place_section sec (item_size it)) its"

lemma item_toks_start:
  assumes "item_wf it"
  shows "tok_type (cur (item_toks l it @ ts)) \<notin> {TOK_NEWLINE, TOK_EOF}"
  by (cases it) (auto simp: instr_toks_def Let_def)

lemma build_items:
  assumes "list_all item_wf its" "ts \<noteq> []"
  shows "build_statements stmts symtab sec (items_toks l its @ ts) =
    build_statements (stmts @ items_stmts sec l its) symtab (items_section sec its) ts"
  using assms(1)
proof (induction its arbitrary: stmts sec l)
  case (Cons it its)
  then have wf: "item_wf it" "list_all item_wf its" by auto
  have ne: "items_toks (l + 1) its @ ts \<noteq> []" using assms(2) by simp
  note p = parse_item [OF wf(1) ne, of stmts symtab sec l]
  show ?case
    using item_toks_start [OF wf(1), of l "items_toks (l + 1) its @ ts"] Cons.IH [OF wf(2)] p ne
    by (simp add: build_statements.simps [of stmts symtab sec "item_toks l it @ items_toks (Suc l) its @ ts"])
qed simp

subsubsection \<open>Emission\<close>

definition put_section :: "bool \<Rightarrow> u16 \<Rightarrow> u8 list \<Rightarrow> ParseResult \<Rightarrow> ParseResult" where
  "put_section in_data a bs out =
     (if in_data then out\<lparr>pr_data := buf_put (pr_data out) a bs\<rparr> else out\<lparr>pr_code := buf_put (pr_code out) a bs\<rparr>)"

lemma resolved_parsed:
  assumes "operand_wf op"
  shows "operand_fine symtab (instr_operand l legal op) (op_mode op)"
    "resolved_operand (instr_operand l legal op) (op_mode op) symtab = op"
proof -
  have res: "value_of (operand_parsed l legal op) symtab = uint (op_value op) \<and> value_defined (operand_parsed l legal op) symtab"
    if "op_mode op \<noteq> MODE_NONE"
    using assms that
    by (cases "op_mode op") (auto simp: operand_parsed_def value_of_def value_defined_def operand_wf_def Let_def)
  have "uint (op_value op) \<le> 65535" "op_mode op = MODE_IMM8 \<Longrightarrow> uint (op_value op) \<le> 255"
    using assms uint_lt2p [of "op_value op"] by (auto simp: operand_wf_def word_le_def)
  then have "in_range (op_mode op) (uint (op_value op))"
    using order_trans [of "-32768" 0 "uint (op_value op)"] by (simp add: in_range_def)
  with res show "operand_fine symtab (instr_operand l legal op) (op_mode op)"
    by (auto simp: operand_fine_def instr_operand_def)
  show "resolved_operand (instr_operand l legal op) (op_mode op) symtab = op"
    using res assms by (cases op) (auto simp: resolved_operand_def instr_operand_def operand_wf_def)
qed

lemma instr_stmt_fields [simp]:
  "st_kind (instr_stmt l i) = STMT_INSTRUCTION"
  by (simp add: instr_stmt_def instruction_statement_def Let_def)

lemma emit_instr_item:
  fixes l :: nat
  assumes i: "instr_wf i" and lt: "unat (active_cursor sec) + length (encode_instruction i) < 65536"
  defines "st \<equiv> placed sec (instr_stmt l i) (int (length (encode_instruction i)))"
  shows "emit_bytes st symtab target = Inr (buf_put target (active_cursor sec) (encode_instruction i))"
proof -
  let ?info = "opcode_info (instr_opcode i)"
  from i have w: "info_valid ?info" "mode_is_legal (op_mode (instr_op1 i)) (info_op1_modes ?info)"
    "mode_is_legal (op_mode (instr_op2 i)) (info_op2_modes ?info)" "operand_wf (instr_op1 i)" "operand_wf (instr_op2 i)"
    by (auto simp: instr_wf_def Let_def)
  note e = expected_operands_wf [OF i]
  have f: "st_opcode st = instr_opcode i" "st_operand_count st = expected_operands (instr_opcode i)"
    "st_op1 st = instr_operand l (info_op1_modes ?info) (instr_op1 i)"
    "st_op2 st = instr_operand l (info_op2_modes ?info) (instr_op2 i)"
    "st_op1_mode st = op_mode (instr_op1 i)" "st_op2_mode st = op_mode (instr_op2 i)"
    "st_kind st = STMT_INSTRUCTION" "st_address st = active_cursor sec"
    "st_encoded_size st = int (length (encode_instruction i))"
    by (simp_all add: st_def placed_def instr_stmt_def instruction_statement_def Let_def)
  have n: "(st_operand_count st \<ge> 1) = (op_mode (instr_op1 i) \<noteq> MODE_NONE)"
    "(st_operand_count st \<ge> 2) = (op_mode (instr_op2 i) \<noteq> MODE_NONE)"
    using e by (auto simp: f)
  have reg: "op_mode op \<in> {MODE_REG, MODE_REG_INDIRECT} \<Longrightarrow> operand_wf op \<Longrightarrow>
      po_kind (instr_operand l legal op) \<in> {OPKIND_REG, OPKIND_REG_INDIRECT} \<and>
      0 \<le> po_reg_index (instr_operand l legal op) \<and> po_reg_index (instr_operand l legal op) \<le> 7" for op legal
    by (auto simp: instr_operand_def operand_parsed_def operand_wf_def word_le_def Let_def)
  have ok: "stmt_ok st"
    using w reg operand_wf_defined [OF w(4)] operand_wf_defined [OF w(5)] encode_size [OF i]
    by (simp add: stmt_ok_def operand_ok_def n [unfolded f(2)] f)
  have fit: "fits st" using lt by (simp add: fits_def stmt_end_def f)
  have v: "operand_fine symtab (st_op1 st) (st_op1_mode st)" "operand_fine symtab (st_op2 st) (st_op2_mode st)"
    unfolding f(3-6) by (rule resolved_parsed(1) [OF w(4)], rule resolved_parsed(1) [OF w(5)])
  have r: "resolved_instruction symtab st = i"
    by (simp add: resolved_instruction_def f resolved_parsed(2) w)
  have "emit_bytes st symtab target = buf_copy target (unat (active_cursor sec)) (encode_instruction i)"
    using emit_instruction_copy(3) [OF ok f(7) fit v] by (simp add: emit_bytes_def f r)
  also have "\<dots> = Inr (buf_put target (active_cursor sec) (encode_instruction i))"
    by (rule buf_copy_put) (use lt in simp)
  finally show ?thesis .
qed

lemma emit_item:
  assumes "item_wf it" "unat (active_cursor sec) + length (item_bytes it) < 65536 \<or> (\<exists>b. it = ItemByte b)"
  shows "emit_statement (placed sec (item_stmt l it) (item_size it)) symtab out =
    Inr (put_section (sec_in_data sec) (active_cursor sec) (item_bytes it) out)"
proof -
  have "emit_bytes (placed sec (item_stmt l it) (item_size it)) symtab target =
      Inr (buf_put target (active_cursor sec) (item_bytes it))" for target
  proof (cases it)
    case (ItemInstr i)
    then show ?thesis using assms emit_instr_item [of i sec l symtab target] by (simp add: item_size_def)
  next
    case (ItemByte b)
    have "0 \<le> uint b" "uint b \<le> 255" using uint_lt2p [of b] by simp_all
    moreover have "unat (active_cursor sec) + 1 \<le> 65536" using unat_lt_65536 [of "active_cursor sec"] by simp
    ultimately show ?thesis
      using ItemByte buf_copy_put [of "active_cursor sec" "[b]" target]
      by (simp add: emit_bytes_def placed_def item_size_def)
  qed
  then show ?thesis by (simp add: emit_statement_def put_section_def)
qed

lemma buf_put_append:
  assumes "unat a + length xs + length ys \<le> 65536"
  shows "buf_put (buf_put buf a xs) (a + of_nat (length xs)) ys = buf_put buf a (xs @ ys)"
proof (cases "ys = []")
  case False
  then have "unat (a + of_nat (length xs)) = unat a + length xs"
    using assms by (intro unat_add_nat) (cases ys, auto)
  then show ?thesis by (intro ext) (auto simp: buf_put_def region_byte_def nth_append)
qed simp

lemma place_section_fields [simp]:
  "active_cursor (place_section sec n) = active_cursor sec + of_int n"
  "sec_in_data (place_section sec n) = sec_in_data sec"
  by (simp_all add: place_section_def Let_def active_cursor_def)

definition only_bytes :: "dis_item list \<Rightarrow> bool" where
  "only_bytes its \<longleftrightarrow> list_all (\<lambda>it. \<exists>b. it = ItemByte b) its"

lemma emit_items:
  assumes "list_all item_wf its"
    and "unat (active_cursor sec) + length (concat (map item_bytes its)) < 65536 \<or>
      unat (active_cursor sec) + length (concat (map item_bytes its)) = 65536 \<and> only_bytes its"
  shows "emit_statements (items_stmts sec l its @ sts) symtab out =
    emit_statements sts symtab (if its = [] then out
      else put_section (sec_in_data sec) (active_cursor sec) (concat (map item_bytes its)) out)"
  using assms
proof (induction its arbitrary: sec l out)
  case (Cons it its)
  let ?bs = "item_bytes it" and ?cs = "concat (map item_bytes its)"
  have wf: "item_wf it" "list_all item_wf its" using Cons.prems by auto
  have e: "emit_statement (placed sec (item_stmt l it) (item_size it)) symtab out =
      Inr (put_section (sec_in_data sec) (active_cursor sec) ?bs out)" for out
    using Cons.prems by (intro emit_item) (auto simp: only_bytes_def)
  let ?sec = "place_section sec (item_size it)"
  show ?case
  proof (cases "its = []")
    case True
    then show ?thesis by (simp add: e)
  next
    case False
    then obtain it' its' where its: "its = it' # its'" by (cases its) auto
    have "?cs \<noteq> []" using its wf by (cases it') (auto simp: encode_instruction_def)
    then have "0 < length ?cs" by (rule length_greater_0_conv [THEN iffD2])
    then have "unat (active_cursor sec) + length ?bs < 65536"
      using Cons.prems(2) by (simp only: list.map concat.simps length_append) linarith
    then have c: "unat (active_cursor ?sec) = unat (active_cursor sec) + length ?bs"
      "active_cursor ?sec = active_cursor sec + of_nat (length ?bs)"
      by (simp_all add: item_size_def unat_add_nat)
    have "put_section (sec_in_data sec) (active_cursor ?sec) ?cs (put_section (sec_in_data sec) (active_cursor sec) ?bs out) =
        put_section (sec_in_data sec) (active_cursor sec) (?bs @ ?cs) out"
      using Cons.prems(2) c(2) buf_put_append [of "active_cursor sec" ?bs ?cs] by (auto simp: put_section_def)
    moreover have "unat (active_cursor ?sec) + length ?cs < 65536 \<or>
        unat (active_cursor ?sec) + length ?cs = 65536 \<and> only_bytes its"
      using Cons.prems(2) c(1) by (auto simp: only_bytes_def)
    ultimately show ?thesis using Cons.IH [OF wf(2), of ?sec "l + 1"] False by (simp add: e)
  qed
qed simp

subsection \<open>Reassembling the text\<close>

definition org_toks :: "nat \<Rightarrow> u16 \<Rightarrow> Token list" where
  "org_toks l a = [text_tok TOK_DIRECTIVE l ''org'', num_tok l (uint a), simple_tok TOK_NEWLINE l]"

definition data_toks :: "nat \<Rightarrow> bool \<Rightarrow> u16 \<Rightarrow> u8 list \<Rightarrow> Token list" where
  "data_toks l org da dat =
     [simple_tok TOK_NEWLINE l, text_tok TOK_DIRECTIVE (l + 1) ''data'', simple_tok TOK_NEWLINE (l + 1)] @
     (if org then org_toks (l + 2) da @ items_toks (l + 3) (map ItemByte dat) else items_toks (l + 2) (map ItemByte dat))"

definition dis_toks :: "u16 \<Rightarrow> u16 \<Rightarrow> u16 \<Rightarrow> u8 list \<Rightarrow> dis_item list \<Rightarrow> nat \<Rightarrow> Token list" where
  "dis_toks ca cn da dat its l_eof =
     (let l0 = (if ca \<noteq> 0 then 5 else 4)
      in map (simple_tok TOK_NEWLINE) [1, 2, 3] @ (if ca \<noteq> 0 then org_toks 4 ca else []) @ items_toks l0 its @
         (if dat = [] then [] else data_toks (l0 + length its) (da \<noteq> ca + cn) da dat) @ [simple_tok TOK_EOF l_eof])"

lemma bytes_wf [simp]: "list_all item_wf (map ItemByte bs)"
  by (induction bs) auto

lemma directive_names: "directive_ok ''org''" "directive_ok ''data''"
  by (simp_all add: directive_ok_def ctype_defs)

lemma lex_org: "lex_loop (org_line a @ p) l out = lex_loop p (l + 1) (out @ org_toks l a)"
  using lex_directive [OF directive_names(1), of "CHR '' ''"] not_ident_marks [of "CHR '' ''"] not_ident_marks [of "CHR 0x0A"]
    lex_hex [of "CHR 0x0A" "unat a"]
  by (simp add: org_line_def org_toks_def u16_int64)

lemma lex_data_line:
  "lex_loop (CHR ''.'' # CHR ''d'' # CHR ''a'' # CHR ''t'' # CHR ''a'' # CHR 0x0A # p) l out =
     lex_loop p (l + 1) (out @ [text_tok TOK_DIRECTIVE l ''data'', simple_tok TOK_NEWLINE l])"
  using lex_directive [OF directive_names(2), of "CHR 0x0A" p l out] not_ident_marks [of "CHR 0x0A"] by simp

lemma no_newline: "CHR 0x0A \<notin> set (fmt_u n)" "CHR 0x0A \<notin> set (fmt_0X w n)"
  using show_base_digits [of n] fmt_0X_hex(2) [of w n] by (auto simp: fmt_u_def list_all_iff ctype_defs)

lemma lex_head:
  "lex_loop (head_text ca cn da dn @ p) 1 [] = lex_loop p 4 (map (simple_tok TOK_NEWLINE) [1, 2, 3])"
proof -
  define c where "c = '' code: '' @ fmt_u (unat cn) @ '' bytes at 0x'' @ fmt_0X 4 (unat ca) @
    (if dn > 0 then '', data: '' @ fmt_u (unat dn) @ '' bytes at 0x'' @ fmt_0X 4 (unat da) else [])"
  have c: "CHR 0x0A \<notin> set c" by (simp add: c_def no_newline)
  have h: "head_text ca cn da dn @ p =
      CHR '';'' # '' disassembled from a .bvm image'' @ CHR 0x0A # CHR '';'' # c @ CHR 0x0A # CHR 0x0A # p"
    by (simp add: head_text_def c_def)
  show ?thesis unfolding h using lex_comment [OF c] lex_comment [of "'' disassembled from a .bvm image''"]
    by (simp add: eval_nat_numeral)
qed

lemma lex_text:
  assumes "list_all item_wf its"
  shows "\<exists>l. lex (dis_text ca cn da dat its) = Inr (dis_toks ca cn da dat its l)"
proof -
  let ?pre = "map (simple_tok TOK_NEWLINE) [1, 2, 3] @ (if ca \<noteq> 0 then org_toks 4 ca else [])"
  let ?first = "if ca \<noteq> 0 then 5 else 4 :: nat"
  have start: "lex_loop (head_text ca cn da dn @ (if ca \<noteq> 0 then org_line ca else []) @ concat (map item_line its) @ p) 1 [] =
      lex_loop p (?first + length its) (?pre @ items_toks ?first its)" for dn p
    using lex_items [OF assms, of p 4] lex_items [OF assms, of p 5] lex_org [of ca _ 4] by (simp add: lex_head [unfolded One_nat_def])
  show ?thesis
  proof (cases "dat = []")
    case True
    then show ?thesis using start [of 0 "[]"] by (auto simp: lex_ok_iff dis_text_def dis_toks_def)
  next
    case False
    have dat: "\<exists>m. lex_loop (CHR 0x0A # ''.data'' @ [CHR 0x0A] @ (if da \<noteq> ca + cn then org_line da else []) @
        concat (map item_line (map ItemByte dat))) l out = Inr (out @ data_toks l (da \<noteq> ca + cn) da dat @ [simple_tok TOK_EOF m])" for l out
      using lex_items [OF bytes_wf [of dat], of "[]"]
      by (auto simp: data_toks_def lex_org lex_data_line eval_nat_numeral simp del: map_map)
    show ?thesis
      using dat [of "?first + length its" "?pre @ items_toks ?first its"] False
      by (simp only: lex_ok_iff dis_text_def start) (simp add: dis_toks_def Let_def)
  qed
qed

subsubsection \<open>Pass 1\<close>

lemma build_newline:
  "ts \<noteq> [] \<Longrightarrow> build_statements stmts symtab sec (simple_tok TOK_NEWLINE l # ts) = build_statements stmts symtab sec ts"
  by (simp add: build_statements.simps [of stmts symtab sec "simple_tok TOK_NEWLINE l # ts"])

lemma build_line:
  assumes "parse_line stmts symtab sec (t # ts) = Inr (symtab', stmts', sec', simple_tok TOK_NEWLINE l # us)" "us \<noteq> []"
    "tok_type t = TOK_DIRECTIVE"
  shows "build_statements stmts symtab sec (t # ts) = build_statements stmts' symtab' sec' us"
  using assms by (simp add: build_statements.simps [of stmts symtab sec "t # ts"])

definition org_stmt :: "nat \<Rightarrow> Statement" where
  "org_stmt l = statement_zero\<lparr>st_kind := STMT_ORG, st_line := l\<rparr>"

definition data_stmt :: "nat \<Rightarrow> Statement" where
  "data_stmt l = statement_zero\<lparr>st_kind := STMT_DATA_SECTION, st_line := l\<rparr>"

lemma u16_range: "\<not> uint (a :: u16) < 0" "\<not> 65535 < uint a"
  using uint_lt2p [of a] by simp_all

lemma build_org:
  assumes "active_cursor sec \<le> a" "ts \<noteq> []"
  shows "build_statements stmts symtab sec (org_toks l a @ ts) =
    build_statements (stmts @ [org_stmt l]) symtab (set_active_cursor sec a) ts"
proof -
  have "parse_line stmts symtab sec (org_toks l a @ ts) =
      Inr (symtab, stmts @ [org_stmt l], set_active_cursor sec a, simple_tok TOK_NEWLINE l # ts)"
    using assms(1) u16_range [of a]
    by (simp add: org_toks_def parse_line_directive parse_directive_select parse_org_def Let_def org_stmt_def not_less)
  then show ?thesis using assms(2) build_line by (simp add: org_toks_def)
qed

lemma build_org_back:
  assumes "a < active_cursor sec"
  shows "\<exists>msg. build_statements stmts symtab sec (org_toks l a @ ts) = Some (Inl (AsmError msg l))"
proof -
  have "\<exists>msg. parse_line stmts symtab sec (org_toks l a @ ts) = Inl (AsmError msg l)"
    using assms u16_range [of a]
    by (simp add: org_toks_def parse_line_directive parse_directive_select parse_org_def Let_def fail_def)
  then show ?thesis
    by (auto simp: org_toks_def build_statements.simps [of stmts symtab sec "text_tok TOK_DIRECTIVE l ''org'' # us" for us])
qed

lemma build_data:
  assumes "\<not> sec_data_seen sec" "ts \<noteq> []"
  shows "build_statements stmts symtab sec (text_tok TOK_DIRECTIVE l ''data'' # simple_tok TOK_NEWLINE l # ts) =
    build_statements (stmts @ [data_stmt l]) symtab
      (sec\<lparr>sec_data_seen := True, sec_in_data := True, sec_data_cursor := sec_code_cursor sec\<rparr>) ts"
proof -
  have "parse_line stmts symtab sec (text_tok TOK_DIRECTIVE l ''data'' # simple_tok TOK_NEWLINE l # ts) =
      Inr (symtab, stmts @ [data_stmt l],
        sec\<lparr>sec_data_seen := True, sec_in_data := True, sec_data_cursor := sec_code_cursor sec\<rparr>, simple_tok TOK_NEWLINE l # ts)"
    using assms(1) by (simp add: parse_line_directive parse_directive_select parse_data_def data_stmt_def)
  from build_line [OF this assms(2)] show ?thesis by simp
qed

lemma build_eof:
  "build_statements stmts symtab sec [simple_tok TOK_EOF l] =
     Some (if sec_code_started sec then Inr (stmts, symtab, sec)
           else fail l ''program contains no instructions or code-section data'')"
  by (simp add: build_statements.simps [of stmts symtab sec "[simple_tok TOK_EOF l]"])

definition items_len :: "dis_item list \<Rightarrow> nat" where
  "items_len its = length (concat (map item_bytes its))"

text \<open>A section after its items: the start is where it was, the cursor moves past the bytes.\<close>

definition code_section :: "SectionState \<Rightarrow> u16 \<Rightarrow> nat \<Rightarrow> SectionState" where
  "code_section sec a n = sec\<lparr>sec_code_cursor := a + of_nat n, sec_code_started := True, sec_code_start_addr := a\<rparr>"

definition data_section :: "SectionState \<Rightarrow> u16 \<Rightarrow> nat \<Rightarrow> SectionState" where
  "data_section sec a n = sec\<lparr>sec_data_cursor := a + of_nat n, sec_data_started := True, sec_data_start_addr := a\<rparr>"

lemma items_section_started:
  "(if sec_in_data sec then sec_data_started sec else sec_code_started sec) \<Longrightarrow>
     items_section sec its = set_active_cursor sec (active_cursor sec + of_nat (items_len its))"
proof (induction its arbitrary: sec)
  case Nil
  then show ?case by (simp add: items_len_def set_active_cursor_def active_cursor_def)
next
  case (Cons it its)
  let ?sec = "place_section sec (item_size it)"
  have s: "?sec = set_active_cursor sec (active_cursor sec + of_int (item_size it))"
    using Cons.prems by (auto simp: place_section_def note_section_start_def Let_def split: if_split_asm)
  moreover have "(if sec_in_data ?sec then sec_data_started ?sec else sec_code_started ?sec)"
    using Cons.prems by (simp add: s)
  ultimately show ?case
    using Cons.IH [of ?sec]
    by (auto simp: set_active_cursor_def active_cursor_def items_len_def item_size_def add.assoc)
qed

lemma items_section_fresh:
  assumes "its \<noteq> []"
  shows "\<not> sec_in_data sec \<Longrightarrow> \<not> sec_code_started sec \<Longrightarrow>
      items_section sec its = code_section sec (sec_code_cursor sec) (items_len its)"
    "sec_in_data sec \<Longrightarrow> \<not> sec_data_started sec \<Longrightarrow>
      items_section sec its = data_section sec (sec_data_cursor sec) (items_len its)"
proof -
  obtain it its' where its: "its = it # its'" using assms by (cases its) auto
  let ?sec = "place_section sec (item_size it)"
  have st: "if sec_in_data ?sec then sec_data_started ?sec else sec_code_started ?sec"
    by (simp add: place_section_def Let_def)
  show "\<not> sec_in_data sec \<Longrightarrow> \<not> sec_code_started sec \<Longrightarrow>
      items_section sec its = code_section sec (sec_code_cursor sec) (items_len its)"
    "sec_in_data sec \<Longrightarrow> \<not> sec_data_started sec \<Longrightarrow>
      items_section sec its = data_section sec (sec_data_cursor sec) (items_len its)"
    using items_section_started [OF st, of its']
    by (simp_all add: its items_len_def item_size_def code_section_def data_section_def place_section_def note_section_start_def
        set_active_cursor_def active_cursor_def Let_def add.assoc)
qed

definition start_section :: "u16 \<Rightarrow> SectionState" where
  "start_section ca = section_zero\<lparr>sec_code_cursor := ca\<rparr>"

definition switched_section :: "SectionState \<Rightarrow> u16 \<Rightarrow> SectionState" where
  "switched_section sec da = sec\<lparr>sec_data_seen := True, sec_in_data := True, sec_data_cursor := da\<rparr>"

lemma build_start:
  assumes "list_all item_wf its" "ts \<noteq> []"
  shows "build_statements [] symtab (section_zero) (map (simple_tok TOK_NEWLINE) [1, 2, 3] @
      (if ca \<noteq> 0 then org_toks 4 ca else []) @ items_toks (if ca \<noteq> 0 then 5 else 4) its @ ts) =
    build_statements ((if ca \<noteq> 0 then [org_stmt 4] else []) @ items_stmts (start_section ca) (if ca \<noteq> 0 then 5 else 4) its)
      symtab (items_section (start_section ca) its) ts"
proof (cases "ca = 0")
  case True
  then have "start_section ca = section_zero" by (simp add: start_section_def section_zero_def)
  then show ?thesis using True build_items [OF assms] assms(2) by (simp add: build_newline)
next
  case False
  have "active_cursor section_zero \<le> ca" "set_active_cursor section_zero ca = start_section ca"
    by (simp_all add: active_cursor_def section_zero_def set_active_cursor_def start_section_def)
  then show ?thesis
    using False build_items [OF assms] build_org [of section_zero ca "items_toks 5 its @ ts" "[]" symtab 4] assms(2)
    by (simp add: build_newline org_toks_def)
qed

lemma concat_ItemByte [simp]: "concat (map (item_bytes \<circ> ItemByte) bs) = bs"
  by (induction bs) auto

lemma build_data_part:
  assumes "dat \<noteq> []" "sec_code_cursor sec \<le> da" "\<not> sec_data_seen sec" "\<not> sec_data_started sec" "sec_code_started sec"
  shows "\<exists>pre k. build_statements stmts symtab sec (data_toks l (da \<noteq> sec_code_cursor sec) da dat @ [simple_tok TOK_EOF m]) =
      Some (Inr (stmts @ pre @ items_stmts (switched_section sec da) k (map ItemByte dat), symtab,
        data_section (switched_section sec da) da (length dat))) \<and> (\<forall>st \<in> set pre. \<not> emits st)"
proof -
  let ?its = "map ItemByte dat" and ?c = "sec_code_cursor sec"
  let ?sw = "sec\<lparr>sec_data_seen := True, sec_in_data := True, sec_data_cursor := ?c\<rparr>"
  have its: "list_all item_wf ?its" "?its \<noteq> []" "items_len ?its = length dat"
    using assms(1) by (auto simp: items_len_def)
  have sw: "?sw = switched_section sec ?c" by (simp add: switched_section_def)
  have fresh: "items_section (switched_section sec da) ?its = data_section (switched_section sec da) da (length dat)"
    using items_section_fresh(2) [OF its(2), of "switched_section sec da"] its(3) assms(4) by (simp add: switched_section_def)
  have run: "build_statements stmts' symtab (switched_section sec da) (items_toks k ?its @ [simple_tok TOK_EOF m]) =
      Some (Inr (stmts' @ items_stmts (switched_section sec da) k ?its, symtab,
        data_section (switched_section sec da) da (length dat)))" for stmts' k
    unfolding build_items [OF its(1) not_Cons_self2] build_eof fresh
    using assms(5) by (simp add: data_section_def switched_section_def)
  show ?thesis
  proof (cases "da = ?c")
    case True
    then show ?thesis
      using run [of "stmts @ [data_stmt (l + 1)]" "l + 2"] build_data [OF assms(3), of "items_toks (l + 2) ?its @ [simple_tok TOK_EOF m]" stmts symtab "l + 1"]
      by (intro exI [of _ "[data_stmt (l + 1)]"] exI [of _ "l + 2"])
        (simp add: data_toks_def build_newline sw emits_def data_stmt_def)
  next
    case False
    have "active_cursor ?sw \<le> da" "set_active_cursor ?sw da = switched_section sec da"
      using assms(2) by (simp_all add: active_cursor_def set_active_cursor_def switched_section_def)
    note o = build_org [OF this(1), of "items_toks (l + 3) ?its @ [simple_tok TOK_EOF m]" "stmts @ [data_stmt (l + 1)]" symtab "l + 2",
      unfolded this(2)]
    show ?thesis
      using False run [of "stmts @ [data_stmt (l + 1), org_stmt (l + 2)]" "l + 3"] o
        build_data [OF assms(3), of "org_toks (l + 2) da @ items_toks (l + 3) ?its @ [simple_tok TOK_EOF m]" stmts symtab "l + 1"]
      by (intro exI [of _ "[data_stmt (l + 1), org_stmt (l + 2)]"] exI [of _ "l + 3"])
        (simp add: data_toks_def build_newline emits_def data_stmt_def org_stmt_def org_toks_def)
  qed
qed

subsubsection \<open>Pass 2 and the image\<close>

lemma emit_silent: "\<forall>st \<in> set pre. \<not> emits st \<Longrightarrow> emit_statements (pre @ sts) symtab out = emit_statements sts symtab out"
proof (induction pre)
  case (Cons st pre)
  have "emit_statement st symtab out = Inr out"
    using Cons.prems by (cases "st_kind st") (auto simp: emits_def emit_statement_def emit_bytes_def)
  with Cons show ?case by simp
qed simp

lemma slice_put:
  assumes "unat a + length bs \<le> 65536" "length bs < 65536"
  shows "buf_slice (buf_put buf a bs) a (of_nat (length bs)) = Inr bs"
proof -
  have n: "unat (of_nat (length bs) :: u16) = length bs" by (rule unat_of_nat_u16 [OF assms(2)])
  have "buf_put buf a bs (a + of_nat i) = bs ! i" if "i < length bs" for i
    using that assms unat_add_nat [of a i] by (simp add: buf_put_def region_byte_def)
  then show ?thesis using assms n by (auto simp: buf_slice_def intro!: nth_equalityI)
qed

definition canonical_image :: "u16 \<Rightarrow> u8 list \<Rightarrow> u16 \<Rightarrow> u8 list \<Rightarrow> bool" where
  "canonical_image ca code da dat \<longleftrightarrow> code \<noteq> [] \<and> unat ca + length code < 65536 \<and>
     (if dat = [] then da = 0 else unat ca + length code \<le> unat da \<and> unat da + length dat \<le> 65536)"

lemma reassemble:
  assumes can: "canonical_image ca code da dat"
    and its: "list_all item_wf its" "concat (map item_bytes its) = code"
  shows "assemble (dis_text ca (of_nat (length code)) da dat its) = Some (Inr (bvm_image ca ca code da dat))"
proof -
  let ?n = "of_nat (length code) :: u16" and ?first = "if ca \<noteq> 0 then 5 else 4 :: nat"
  let ?sec = "code_section (start_section ca) ca (length code)"
  from lex_text [OF its(1)] obtain m where lx: "lex (dis_text ca ?n da dat its) = Inr (dis_toks ca ?n da dat its m)" by blast
  from can have c: "code \<noteq> []" "unat ca + length code < 65536" by (auto simp: canonical_image_def)
  have ne: "its \<noteq> []" "items_len its = length code" using c(1) its(2) by (auto simp: items_len_def)
  have sec: "items_section (start_section ca) its = ?sec"
    using items_section_fresh(1) [OF ne(1), of "start_section ca"] ne(2) by (simp add: start_section_def section_zero_def)
  let ?st0 = "(if ca \<noteq> 0 then [org_stmt 4] else []) @ items_stmts (start_section ca) ?first its"
  let ?out = "put_section False ca code parse_result_zero"
  have "\<forall>st \<in> set (if ca \<noteq> 0 then [org_stmt 4] else []). \<not> emits st" by (simp add: emits_def org_stmt_def)
  moreover have "active_cursor (start_section ca) = ca" "\<not> sec_in_data (start_section ca)"
    by (simp_all add: active_cursor_def start_section_def section_zero_def)
  ultimately have em: "emit_statements (?st0 @ sts) symtab_init parse_result_zero = emit_statements sts symtab_init ?out" for sts
    using emit_items [OF its(1), of "start_section ca"] ne c its(2) by (simp add: emit_silent)
  show ?thesis
  proof (cases "dat = []")
    case True
    have "build_statements [] symtab_init section_zero (dis_toks ca ?n da dat its m) = Some (Inr (?st0, symtab_init, ?sec))"
      using build_start [OF its(1), of "[simple_tok TOK_EOF m]" symtab_init ca] True
      by (simp add: dis_toks_def Let_def build_eof sec code_section_def)
    note a = assemble_statements [OF lx this]
    show ?thesis using a em [of "[]"] slice_put [of ca code] c True can
      by (simp add: write_image_def final_result_def code_section_def start_section_def section_zero_def put_section_def
          parse_result_zero_def canonical_image_def bvm_image_def le16_def write_u16_le_def buf_slice_def [of _ 0 0])
  next
    case False
    with can have d: "unat ca + length code \<le> unat da" "unat da + length dat \<le> 65536" by (auto simp: canonical_image_def)
    have cur: "sec_code_cursor ?sec = ca + ?n" "unat (ca + ?n) = unat ca + length code"
      using c by (simp_all add: code_section_def unat_add_nat)
    then have "ca + ?n \<le> da" using d by (simp add: word_le_nat_alt)
    then obtain pre k where b: "build_statements ?st0 symtab_init ?sec (data_toks (?first + length its) (da \<noteq> ca + ?n) da dat @ [simple_tok TOK_EOF m]) =
        Some (Inr (?st0 @ pre @ items_stmts (switched_section ?sec da) k (map ItemByte dat), symtab_init,
          data_section (switched_section ?sec da) da (length dat)))" "\<forall>st \<in> set pre. \<not> emits st"
      using build_data_part [OF False, of ?sec da ?st0 symtab_init "?first + length its" m] cur(1)
      by (auto simp: code_section_def start_section_def section_zero_def)
    have "build_statements [] symtab_init section_zero (dis_toks ca ?n da dat its m) =
        Some (Inr (?st0 @ pre @ items_stmts (switched_section ?sec da) k (map ItemByte dat), symtab_init,
          data_section (switched_section ?sec da) da (length dat)))"
      using build_start [OF its(1), of "data_toks (?first + length its) (da \<noteq> ca + ?n) da dat @ [simple_tok TOK_EOF m]" symtab_init ca] False b(1)
      by (simp add: dis_toks_def Let_def sec)
    note a = assemble_statements [OF lx this]
    have sw: "active_cursor (switched_section ?sec da) = da" "sec_in_data (switched_section ?sec da)"
      by (simp_all add: active_cursor_def switched_section_def)
    have "emit_statements (items_stmts (switched_section ?sec da) k (map ItemByte dat)) symtab_init ?out =
        Inr (put_section True da dat ?out)"
      using emit_items [OF bytes_wf [of dat], of "switched_section ?sec da" k "[]" symtab_init ?out] sw d False
      by (auto simp: only_bytes_def list_all_iff le_less)
    then have e: "emit_statements (?st0 @ pre @ items_stmts (switched_section ?sec da) k (map ItemByte dat)) symtab_init parse_result_zero =
        Inr (put_section True da dat ?out)" by (simp only: em emit_silent [OF b(2)])
    have "length dat < 65536" using c d by (cases code) auto
    then show ?thesis using a e slice_put [of ca code] slice_put [of da dat] c d
      by (simp add: write_image_def final_result_def code_section_def data_section_def switched_section_def start_section_def
          section_zero_def put_section_def parse_result_zero_def bvm_image_def le16_def write_u16_le_def)
  qed
qed

subsection \<open>The round trip\<close>

lemma mem_has_unique: "mem_has mem a xs \<Longrightarrow> mem_has mem a ys \<Longrightarrow> length xs = length ys \<Longrightarrow> xs = ys"
proof (induction xs arbitrary: a ys)
  case (Cons x xs)
  then show ?case by (cases ys) auto
qed simp

lemma load_loop_has:
  assumes "load_loop mem0 (ucast ca) bs off n 0 = Some mem" "off + n \<le> length bs" "unat ca + n \<le> 65536"
  shows "mem_has mem ca (take n (drop off bs))"
proof -
  from load_loop_spec [of off n bs ca 0 mem0] assms have
    "\<And>a. mem_read8 mem a = (if unat ca \<le> unat a \<and> unat a < unat ca + n then bs ! (off + (unat a - unat ca)) else mem_read8 mem0 a)"
    by auto
  then have "holds (mem_data mem) ca (take n (drop off bs))"
    using assms(2) by (auto simp: holds_def mem_read8_def)
  then show ?thesis using assms(2,3) by (intro holds_mem_has) auto
qed

lemma image_disassembly:
  assumes "length code < 65536" "length dat < 65536" "unat ca + length code < 65536"
  shows "\<exists>its. disassemble (bvm_image ca ca code da dat) = Some (Inr (dis_text ca (of_nat (length code)) da dat its)) \<and>
    list_all item_wf its \<and> concat (map item_bytes its) = code"
proof -
  let ?bs = "bvm_image ca ca code da dat" and ?n = "of_nat (length code) :: u16"
  note f = image_fields [OF assms(1,2), of ca ca da "[]", simplified]
  have un: "unat ?n = length code" "unat (of_nat (length dat) :: u16) = length dat"
    using assms unat_of_nat_u16 by simp_all
  have "dis_error ?bs = None" using f un by (simp add: dis_error_def)
  from disassemble_ok [OF this] f un obtain mem where
    mem: "load_loop (mem_init \<lparr>mem_data = \<lambda>_. 0\<rparr>) (ucast ca) ?bs 16 (length code) 0 = Some mem"
    "disassemble ?bs = Some (Inr (dis_text ca ?n da dat (dis_items mem ca (ca + ?n))))" by auto
  have has: "mem_has mem ca code"
    using load_loop_has [OF mem(1)] f un assms by (simp add: image_code_def)
  have e: "unat (ca + ?n) = unat ca + length code" using assms(3) by (rule unat_add_nat)
  then have "ca \<le> ca + ?n" by (simp add: word_le_nat_alt)
  from dis_items_bytes [OF this, of mem] e has mem_has_unique [OF _ has] mem(2) show ?thesis by auto
qed

lemma canonical_lengths:
  assumes "canonical_image ca code da dat"
  shows "length code < 65536" "length dat < 65536" "unat ca + length code < 65536"
  using assms by (cases code; auto simp: canonical_image_def split: if_split_asm)+

lemma canonical_roundtrip:
  assumes "canonical_image ca code da dat"
  shows "\<exists>text. disassemble (bvm_image ca ca code da dat) = Some (Inr text) \<and>
    assemble text = Some (Inr (bvm_image ca ca code da dat))"
  using image_disassembly [OF canonical_lengths [OF assms]] reassemble [OF assms] by blast

subsection \<open>Where the text does not reassemble\<close>

lemma assemble_pass1_error:
  "lex source = Inr toks \<Longrightarrow> build_statements [] symtab_init section_zero toks = Some (Inl (AsmError msg l)) \<Longrightarrow>
     \<exists>msg' l. assemble source = Some (Inl (AsmError msg' l))"
  by (simp add: assemble_def assemble_tokens_def asm_message_def)

lemma top_listing:
  assumes "length code < 65536" "length dat < 65536" "unat ca + length code = 65536"
  shows "disassemble (bvm_image ca ca code da dat) = Some (Inr (dis_text ca (of_nat (length code)) da dat []))"
proof -
  let ?bs = "bvm_image ca ca code da dat" and ?n = "of_nat (length code) :: u16"
  note f = image_fields [OF assms(1,2), of ca ca da "[]", simplified]
  have un: "unat ?n = length code" "unat (of_nat (length dat) :: u16) = length dat"
    using assms unat_of_nat_u16 by simp_all
  have "dis_error ?bs = None" using f un by (simp add: dis_error_def)
  from disassemble_ok [OF this] f un obtain mem where
    "disassemble ?bs = Some (Inr (dis_text ca ?n da dat (dis_items mem ca (ca + ?n))))" by auto
  moreover have "unat (ca + ?n) = 0" using assms un by (simp add: unat_word_ariths)
  then have "dis_items mem ca (ca + ?n) = []" by (simp add: dis_items.simps [of mem ca] unat_eq_0)
  ultimately show ?thesis by simp
qed

lemma build_data_back:
  assumes "da < sec_code_cursor sec" "\<not> sec_data_seen sec"
  shows "\<exists>msg. build_statements stmts symtab sec (data_toks l (da \<noteq> sec_code_cursor sec) da dat @ [simple_tok TOK_EOF m]) =
    Some (Inl (AsmError msg (l + 2)))"
proof -
  let ?sw = "sec\<lparr>sec_data_seen := True, sec_in_data := True, sec_data_cursor := sec_code_cursor sec\<rparr>"
  let ?ts = "items_toks (l + 3) (map ItemByte dat) @ [simple_tok TOK_EOF m]"
  have "da < active_cursor ?sw" using assms(1) by (simp add: active_cursor_def)
  from build_org_back [OF this, of "stmts @ [data_stmt (l + 1)]" symtab "l + 2" ?ts]
    build_data [OF assms(2), of "org_toks (l + 2) da @ ?ts" stmts symtab "l + 1"] assms(1)
  show ?thesis by (auto simp: data_toks_def build_newline org_toks_def)
qed

lemma build_data_no_code:
  assumes "dat \<noteq> []" "\<not> sec_code_started sec" "\<not> sec_data_seen sec" "\<not> sec_data_started sec"
  shows "\<exists>msg. build_statements stmts symtab sec (data_toks l False da dat @ [simple_tok TOK_EOF m]) = Some (Inl (AsmError msg m))"
proof -
  let ?its = "map ItemByte dat" and ?sw = "sec\<lparr>sec_data_seen := True, sec_in_data := True, sec_data_cursor := sec_code_cursor sec\<rparr>"
  have its: "list_all item_wf ?its" "?its \<noteq> []" using assms(1) by auto
  have "\<not> sec_code_started (items_section ?sw ?its)"
    using items_section_fresh(2) [OF its(2), of ?sw] assms(2,4) by (simp add: data_section_def)
  then show ?thesis
    using build_data [OF assms(3), of "items_toks (l + 2) ?its @ [simple_tok TOK_EOF m]" stmts symtab "l + 1"]
      build_items [OF its(1), of "[simple_tok TOK_EOF m]" "stmts @ [data_stmt (l + 1)]" symtab ?sw "l + 2"]
    by (simp add: data_toks_def build_newline build_eof fail_def)
qed

lemma top_reassembly:
  assumes "image_ok ca ca code da dat" "unat ca + length code = 65536"
  shows "\<exists>msg l. assemble (dis_text ca (of_nat (length code)) da dat []) = Some (Inl (AsmError msg l))"
proof -
  let ?n = "of_nat (length code) :: u16" and ?sec = "start_section ca" and ?st0 = "if ca \<noteq> 0 then [org_stmt 4] else []"
  from lex_text [of "[]" ca ?n da dat] obtain m where
    lx: "lex (dis_text ca ?n da dat []) = Inr (dis_toks ca ?n da dat [] m)" by auto
  have len: "length code < 65536" "length dat < 65536" using assms(1) by (auto simp: image_ok_def)
  have un: "unat ?n = length code" using len unat_of_nat_u16 by simp
  have "unat (ca + ?n) = 0" using assms(2) un by (simp add: unat_word_ariths)
  then have wrap: "ca + ?n = 0" by (simp add: unat_eq_0)
  have ca: "ca \<noteq> 0" using assms(2) len by auto
  have sec: "\<not> sec_code_started ?sec" "\<not> sec_data_seen ?sec" "\<not> sec_data_started ?sec" "sec_code_cursor ?sec = ca"
    by (simp_all add: start_section_def section_zero_def)
  have "\<exists>msg l. build_statements [] symtab_init section_zero (dis_toks ca ?n da dat [] m) = Some (Inl (AsmError msg l))"
  proof (cases "dat = []")
    case True
    then show ?thesis
      using build_start [of "[]" "[simple_tok TOK_EOF m]" symtab_init ca] sec(1)
      by (simp add: dis_toks_def Let_def build_eof fail_def)
  next
    case False
    have "\<exists>msg l. build_statements ?st0 symtab_init ?sec (data_toks 5 (da \<noteq> 0) da dat @ [simple_tok TOK_EOF m]) = Some (Inl (AsmError msg l))"
    proof (cases "da = 0")
      case True
      then show ?thesis using build_data_no_code [OF False sec(1-3), of ?st0 symtab_init 5 da m] by auto
    next
      case d: False
      have "unat da < unat ca" using assms False unat_lt_65536 [of da] by (cases dat) (auto simp: image_ok_def)
      then have "da < ca" "(da \<noteq> ca) = True" "(da \<noteq> 0) = True" using d by (auto simp: word_less_nat_alt)
      then show ?thesis using build_data_back [of da ?sec ?st0 symtab_init 5 dat m] sec by auto
    qed
    then show ?thesis
      using build_start [of "[]" "data_toks 5 (da \<noteq> 0) da dat @ [simple_tok TOK_EOF m]" symtab_init ca] False ca wrap
      by (simp add: dis_toks_def Let_def)
  qed
  then show ?thesis using assemble_pass1_error [OF lx] by blast
qed

lemma below_reassembly:
  assumes "code \<noteq> []" "unat ca + length code < 65536" "dat \<noteq> []" "unat da + length dat \<le> unat ca"
  shows "\<exists>text msg line. disassemble (bvm_image ca ca code da dat) = Some (Inr text) \<and>
    assemble text = Some (Inl (AsmError msg line))"
proof -
  have len: "length code < 65536" "length dat < 65536" using assms unat_lt_65536 [of ca] by auto
  let ?n = "of_nat (length code) :: u16" and ?first = "if ca \<noteq> 0 then 5 else 4 :: nat"
  from image_disassembly [OF len assms(2)] obtain its where
    its: "disassemble (bvm_image ca ca code da dat) = Some (Inr (dis_text ca ?n da dat its))"
      "list_all item_wf its" "concat (map item_bytes its) = code" by blast
  from lex_text [OF its(2)] obtain m where lx: "lex (dis_text ca ?n da dat its) = Inr (dis_toks ca ?n da dat its m)" by blast
  let ?sec = "items_section (start_section ca) its" and ?k = "?first + length its"
  let ?st0 = "(if ca \<noteq> 0 then [org_stmt 4] else []) @ items_stmts (start_section ca) ?first its"
  have "its \<noteq> []" "items_len its = length code" using assms(1) its(3) by (auto simp: items_len_def)
  then have sec: "?sec = code_section (start_section ca) ca (length code)"
    using items_section_fresh(1) [of its "start_section ca"] by (simp add: start_section_def section_zero_def)
  have e: "unat (ca + ?n) = unat ca + length code" using assms(2) by (rule unat_add_nat)
  have lt: "da < ca + ?n" using e assms by (simp add: word_less_nat_alt) (cases code, auto)
  have cur: "sec_code_cursor ?sec = ca + ?n" "\<not> sec_data_seen ?sec"
    unfolding sec by (simp_all add: code_section_def start_section_def section_zero_def)
  from build_data_back [of da ?sec ?st0 symtab_init ?k dat m] cur lt obtain msg where
    "build_statements ?st0 symtab_init ?sec (data_toks ?k (da \<noteq> ca + ?n) da dat @ [simple_tok TOK_EOF m]) =
      Some (Inl (AsmError msg (?k + 2)))" by (simp only: cur(1)) blast
  then have "build_statements [] symtab_init section_zero (dis_toks ca ?n da dat its m) = Some (Inl (AsmError msg (?k + 2)))"
    using build_start [OF its(2), of "data_toks ?k (da \<noteq> ca + ?n) da dat @ [simple_tok TOK_EOF m]" symtab_init ca] assms(3)
    by (simp add: dis_toks_def Let_def)
  then show ?thesis using its(1) assemble_pass1_error [OF lx] by auto
qed

lemma lost_data_address:
  assumes "image_ok ca ca code da []" "unat ca + length code < 65536" "da \<noteq> 0"
  shows "\<exists>text. disassemble (bvm_image ca ca code da []) = Some (Inr text) \<and>
    assemble text = Some (Inr (bvm_image ca ca code 0 [])) \<and> bvm_image ca ca code 0 [] \<noteq> bvm_image ca ca code da []"
proof -
  have len: "length code < 65536" "length ([] :: u8 list) < 65536" "code \<noteq> []" using assms(1) by (auto simp: image_ok_def)
  from image_disassembly [OF len(1,2) assms(2), of da] obtain its where
    its: "disassemble (bvm_image ca ca code da []) = Some (Inr (dis_text ca (of_nat (length code)) da [] its))"
    "list_all item_wf its" "concat (map item_bytes its) = code" by blast
  have "canonical_image ca code 0 []" using assms(2) len(3) by (simp add: canonical_image_def)
  from reassemble [OF this its(2,3)] have
    "assemble (dis_text ca (of_nat (length code)) da [] its) = Some (Inr (bvm_image ca ca code 0 []))"
    by (simp add: dis_text_def head_text_def)
  moreover have "header_word (bvm_image ca ca code d []) 14 = d" for d
    using image_fields [OF len(1,2), of ca ca d "[]"] by simp
  then have "bvm_image ca ca code 0 [] \<noteq> bvm_image ca ca code da []" using assms(3) by metis
  ultimately show ?thesis using its(1) by blast
qed

subsection \<open>The guarantee\<close>

lemma not_canonical_differs:
  assumes "image_ok ca ca code da dat" "\<not> canonical_image ca code da dat"
  shows "\<exists>text. disassemble (bvm_image ca ca code da dat) = Some (Inr text) \<and>
    assemble text \<noteq> Some (Inr (bvm_image ca ca code da dat))"
proof (cases "unat ca + length code = 65536")
  case True
  with top_reassembly [OF assms(1)] top_listing [of code dat ca da] assms(1) show ?thesis
    by (auto simp: image_ok_def)
next
  case False
  with assms(1) have c: "code \<noteq> []" "unat ca + length code < 65536" by (auto simp: image_ok_def)
  show ?thesis
  proof (cases "dat = []")
    case True
    with assms c have "da \<noteq> 0" by (simp add: canonical_image_def)
    with lost_data_address [of ca code da] True assms(1) c(2) show ?thesis by auto
  next
    case False
    with assms c have "unat da + length dat \<le> unat ca" by (auto simp: canonical_image_def image_ok_def)
    from below_reassembly [OF c False this] show ?thesis by auto
  qed
qed

text \<open>
  C1: the round trip of the disassembler, exactly. For every image the loader accepts whose entry
  point is the start of its code, the disassembler prints a text, and assembling the text gives
  the image back, byte for byte, if and only if the image is canonical: its code ends below
  0x10000, its data, if there is any, begins at or after the end of the code, and if there is
  none its data address is 0. For an image with no data the data address is not printed, and the
  text of one with another data address assembles to the image with data address 0.
\<close>

theorem disassemble_assemble:
  assumes "image_ok ca ca code da dat"
  shows "\<exists>text. disassemble (bvm_image ca ca code da dat) = Some (Inr text) \<and>
    (assemble text = Some (Inr (bvm_image ca ca code da dat)) \<longleftrightarrow>
      code \<noteq> [] \<and> unat ca + length code < 65536 \<and>
      (if dat = [] then da = 0 else unat ca + length code \<le> unat da \<and> unat da + length dat \<le> 65536)) \<and>
    (dat = [] \<and> unat ca + length code < 65536 \<longrightarrow> assemble text = Some (Inr (bvm_image ca ca code 0 [])))"
proof -
  have lost: "\<exists>text. disassemble (bvm_image ca ca code da dat) = Some (Inr text) \<and>
      assemble text = Some (Inr (bvm_image ca ca code 0 []))"
    if "dat = []" "unat ca + length code < 65536" "\<not> canonical_image ca code da dat"
    using lost_data_address [of ca code da] that assms by (auto simp: canonical_image_def image_ok_def)
  show ?thesis
    unfolding canonical_image_def [symmetric]
    using canonical_roundtrip [of ca code da dat] not_canonical_differs [OF assms] lost
    by (cases "canonical_image ca code da dat") (auto simp: canonical_image_def)
qed

theorem disassemble_assemble_witness:
  "\<exists>text. disassemble (bvm_image 0x10 0x10 [0, 0, 0xFF] 0x20 [7, 8]) = Some (Inr text) \<and>
    assemble text = Some (Inr (bvm_image 0x10 0x10 [0, 0, 0xFF] 0x20 [7, 8]))"
  using disassemble_assemble [of "0x10" "[0, 0, 0xFF]" "0x20" "[7, 8]"] by (simp add: image_ok_def)

text \<open>
  C13: assembling, disassembling and assembling again is assembling. Whatever source is accepted
  by both passes, with every statement ending below 65536, its image is disassembled to a text
  that assembles to the same image.
\<close>

theorem assembled_disassembles:
  assumes "lex source = Inr toks"
    and "build_statements [] symtab_init section_zero toks = Some (Inr (stmts, symtab, sec))"
    and "\<forall>st \<in> set stmts. fits st"
    and "assemble source = Some (Inr img)"
  shows "\<exists>text. disassemble img = Some (Inr text) \<and> assemble text = Some (Inr img)"
proof -
  note steps = build_statements_steps [OF assms(2)]
  have lay: "layout stmts sec" "sec_code_started sec" "data_start_zero sec"
    using pass1_layout [OF conjunct1 [OF steps] assms(3)] conjunct2 [OF steps]
      pass1_data_start_zero [OF conjunct1 [OF steps]] by auto
  have sec: "sections_ok sec" using lay(1) by (simp add: layout_def)
  obtain out where out: "emit_statements stmts symtab parse_result_zero = Inr out"
    using assms(4) assemble_statements [OF assms(1,2)] by (auto split: sum.split_asm)
  let ?c = "sec_code_start_addr sec" and ?d = "sec_data_start_addr sec"
  from write_image_final [OF sec lay(2,3), of out] obtain code dat where
    img: "write_image (final_result out sec) = Inr (bvm_image ?c ?c code ?d dat)" 
    and slices: "code = slice (pr_code out) ?c (sec_code_cursor sec - ?c)"
      "dat = slice (pr_data out) ?d (if sec_data_started sec then sec_data_cursor sec - ?d else 0)" by blast
  have i: "img = bvm_image ?c ?c code ?d dat"
    using assms(4) assemble_statements [OF assms(1,2)] out img by simp
  note fs = final_sections [OF sec lay(2)]
  have "sec_data_started sec \<Longrightarrow> unat ?d < unat (sec_data_cursor sec)"
    using sec by (simp add: sections_ok_def word_less_nat_alt)
  then have "canonical_image ?c code ?d dat"
    using fs lay(3) unat_lt_65536 [of "sec_code_cursor sec"] unat_lt_65536 [of "sec_data_cursor sec"]
    by (cases "sec_data_started sec")
      (auto simp: canonical_image_def data_start_zero_def slices slice_def simp flip: length_greater_0_conv)
  then show ?thesis unfolding i by (rule canonical_roundtrip)
qed

lemma nop_fits: "\<forall>st \<in> set [nop_token_statement]. fits st"
proof -
  have "st_address nop_token_statement = 0" "st_encoded_size nop_token_statement = 2" by code_simp+
  then show ?thesis by (simp add: fits_def stmt_end_def)
qed

lemma assemble_nop: "assemble ''NOP'' = Some (Inr (bvm_image 0 0 [0, 0] 0 []))"
proof -
  have "emit_statements [nop_token_statement] symtab_init parse_result_zero =
      Inr (parse_result_zero\<lparr>pr_code := (\<lambda>_. 0)(0 := 0, 1 := 0)\<rparr>)"
    by (simp add: nop_token_statement_def emit_statement_def emit_bytes_def emit_instruction_def operand_value_def
        emit_operand_bytes_def buf_write_def placed_def instruction_statement_def statement_zero_def section_zero_def
        active_cursor_def parse_result_zero_def Let_def)
  then show ?thesis
    by (simp add: assemble_statements [OF lex_nop build_nop] write_image_def final_result_def buf_slice_def
        place_section_def section_zero_def note_section_start_def set_active_cursor_def active_cursor_def
        parse_result_zero_def upt_rec bvm_image_def le16_def write_u16_le_def Let_def)
qed

theorem assembled_disassembles_witness:
  "\<exists>img text. assemble ''NOP'' = Some (Inr img) \<and> disassemble img = Some (Inr text) \<and> assemble text = Some (Inr img)"
  using assemble_nop assembled_disassembles [OF lex_nop build_nop nop_fits] by blast

subsection \<open>The images it fails for\<close>

text \<open>
  C37: code that reaches the top of memory is lost by the disassembler. For every image the loader
  accepts, with its entry point at the start of its code, whose code ends exactly at 0x10000,
  the end address wraps to 0, the text printed is the listing with no item for the code at
  all (the comment lines, the .org and the data bytes), and assembling it is an error.
\<close>

theorem disassemble_top_of_memory:
  assumes "image_ok ca ca code da dat" "unat ca + length code = 65536"
  shows "vm_load vm (bvm_image ca ca code da dat) = Some (VM_OK, loaded_vm ca ca code da dat) \<and>
    disassemble (bvm_image ca ca code da dat) = Some (Inr (dis_text ca (of_nat (length code)) da dat [])) \<and>
    (\<exists>msg line. assemble (dis_text ca (of_nat (length code)) da dat []) = Some (Inl (AsmError msg line)))"
  using vm_load_image [OF assms(1), of vm "[]"] top_listing [of code dat ca da] top_reassembly [OF assms] assms
  by (simp add: image_ok_def)

theorem disassemble_top_of_memory_witness:
  "\<exists>text msg line. disassemble (bvm_image 0xFFFE 0xFFFE [0, 0] 0x10 [7]) = Some (Inr text) \<and>
     assemble text = Some (Inl (AsmError msg line))"
  using disassemble_top_of_memory [of "0xFFFE" "[0, 0]" "0x10" "[7]"] by (auto simp: image_ok_def)

text \<open>
  C38: an image whose data lies below its code (the code ending below 0x10000, the entry point at
  its start), which the loader accepts, is disassembled to a text that does not assemble: the
  .org of its data section would move backward.
\<close>

theorem disassemble_data_below_code:
  assumes "code \<noteq> []" "unat ca + length code < 65536" "dat \<noteq> []" "unat da + length dat \<le> unat ca"
  shows "vm_load vm (bvm_image ca ca code da dat) = Some (VM_OK, loaded_vm ca ca code da dat) \<and>
    (\<exists>text msg line. disassemble (bvm_image ca ca code da dat) = Some (Inr text) \<and>
       assemble text = Some (Inl (AsmError msg line)))"
proof -
  have "length code < 65536" "length dat < 65536" using assms unat_lt_65536 [of ca] by auto
  then have "image_ok ca ca code da dat" using assms unat_lt_65536 [of ca] by (auto simp: image_ok_def)
  from vm_load_image [OF this, of vm "[]"] below_reassembly [OF assms] show ?thesis by simp
qed

theorem disassemble_data_below_code_witness:
  "\<exists>text msg line. disassemble (bvm_image 0x10 0x10 [0, 0] 0 [7]) = Some (Inr text) \<and>
     assemble text = Some (Inl (AsmError msg line))"
  using disassemble_data_below_code [of "[0, 0]" "0x10" "[7]" 0] by simp

text \<open>
  C14: the disassembler never runs into undefined behaviour (no read outside the image, no text
  that overflows its buffer, no unknown mnemonic) and reports an error exactly for an image
  without a BVM1 header, one shorter than its header claims, and one whose entry point is not
  the start of its code.
\<close>

theorem disassemble_exact:
  "\<exists>r. disassemble img = Some r \<and> (\<forall>msg. r = Inl msg \<longleftrightarrow> dis_error img = Some msg)"
  using disassemble_error [of img] disassemble_ok [of img] by (cases "dis_error img") auto

end
