(* ===== verification/Bvm_Cli.thy ===== *)
theory Bvm_Cli
  imports Bvm_Main Bvm_Session Bvm_Roundtrip
begin

text \<open>
  Correctness of the command line (src/main.c): the exit status of a run, assembling to a file
  against running the source directly, disassembling to a file and assembling it again, and
  that every invocation ends.
\<close>

unbundle bit_operations_syntax

lemma run_loop_run: "run_loop steps vm h = run_until machine_step halted_state (MAX_STEPS - steps) (vm, h)"
proof (induction "MAX_STEPS - steps" arbitrary: steps vm h)
  case 0
  then show ?case by (simp add: run_loop.simps [of steps vm h])
next
  case (Suc n)
  have n: "n = MAX_STEPS - (steps + 1)" "steps < MAX_STEPS" using Suc.hyps(2) by simp_all
  note IH = Suc.hyps(1) [OF n(1), folded n(1), simplified]
  show ?case
    unfolding Suc.hyps(2) [symmetric] run_loop.simps [of steps vm h]
    using n(2) by (cases "vm_step vm h") (auto simp: machine_step_def [of "(vm, h)"] halted_state_def IH)
qed

lemma run_loop_stops:
  assumes "vm_inv vm"
  shows "\<exists>k vm' h'. run_loop 0 vm h = Some (vm', h') \<and> vm_inv vm' \<and> stops_at machine_step halted_state MAX_STEPS k (vm, h) (vm', h')"
  using vm_machine.run_until_total [of "(vm, h)" halted_state MAX_STEPS] assms by (auto simp: run_loop_run)

text \<open>The exit status of a machine that stopped: 1 for a fault or the step limit, else the low byte of R0.\<close>

definition exit_status :: "VM \<Rightarrow> int" where
  "exit_status vm = (if vm_last_error vm \<noteq> VM_OK \<or> \<not> vm_halted vm then 1 else uint (cpu_r (vm_cpu vm) ! 0 AND 0xFF))"

lemma exit_status_range: "0 \<le> exit_status vm \<and> exit_status vm \<le> 255"
proof -
  have "cpu_r (vm_cpu vm) ! 0 AND 0xFF \<le> 0xFF" by (rule word_and_le1)
  then have "uint (cpu_r (vm_cpu vm) ! 0 AND 0xFF) \<le> 0xFF" by (simp add: word_le_def)
  then show ?thesis by (simp add: exit_status_def)
qed

lemma run_image:
  assumes "image_from_path path w = Some (Some img, w1)" "header_ok img"
  shows "\<exists>k vm' h' err. cmd_run vm0 path w = Some (exit_status vm', w1\<lparr>w_host := h', w_err := w_err w1 @ err\<rparr>) \<and>
    stops_at machine_step halted_state MAX_STEPS k (image_start img, w_host w1) (vm', h') \<and>
    (err = [] \<longleftrightarrow> vm_last_error vm' = VM_OK \<and> vm_halted vm')"
proof -
  from run_loop_stops [OF loader.start_inv [OF assms(2)], of "w_host w1"] obtain k vm' h' where
    r: "run_loop 0 (image_start img) (w_host w1) = Some (vm', h')" "vm_inv vm'"
    "stops_at machine_step halted_state MAX_STEPS k (image_start img, w_host w1) (vm', h')" by blast
  have "reg_get (vm_cpu vm') 0 = Some (cpu_r (vm_cpu vm') ! 0)" using r(2) by (simp add: reg_get_def vm_inv_def)
  then have "\<exists>err. cmd_run vm0 path w = Some (exit_status vm', w1\<lparr>w_host := h', w_err := w_err w1 @ err\<rparr>) \<and>
      (err = [] \<longleftrightarrow> vm_last_error vm' = VM_OK \<and> vm_halted vm')"
    using assms r(1) by (auto simp: cmd_run_def loader.load_good exit_status_def eprint_def Let_def)
  with r(3) show ?thesis by blast
qed

text \<open>A path whose contents are read whole.\<close>

definition disk_ok :: "World \<Rightarrow> string \<Rightarrow> bool" where
  "disk_ok w path \<longleftrightarrow> w_seek w path \<and> w_tell w path \<and> w_short w path = None"

text \<open>
  C18: run executes the program and reports its outcome. For an image that loads, the machine is
  run from its loaded state on the console until it halts or 10000000 steps are done; the
  exit status is the low byte of R0 after a normal halt and 1 after a fault or at the
  step limit, and standard error is written to exactly in those two cases.
\<close>

theorem run_exit_status:
  assumes "image_from_path path w = Some (Some img, w1)" "vm_load vm img = Some (VM_OK, start)"
  shows "\<exists>k vm' h' err. cmd_run vm0 path w = Some (exit_status vm', w1\<lparr>w_host := h', w_err := w_err w1 @ err\<rparr>) \<and>
    stops_at machine_step halted_state MAX_STEPS k (start, w_host w1) (vm', h') \<and>
    (err = [] \<longleftrightarrow> vm_last_error vm' = VM_OK \<and> vm_halted vm')"
  using run_image [OF assms(1)] assms(2) by (auto simp: loader.load_ok_iff)

definition world_with :: "u8 list \<Rightarrow> World" where
  "world_with bs = \<lparr>w_host = \<lparr>host_in = [], host_out = []\<rparr>, w_err = [], w_files = [''p.bvm'' \<mapsto> bs],
     w_seek = (\<lambda>_. True), w_tell = (\<lambda>_. True), w_short = (\<lambda>_. None),
     w_writable = (\<lambda>_. True), w_room = 100000, w_lost = (\<lambda>_. None)\<rparr>"

lemma world_image: "image_from_path ''p.bvm'' (world_with bs) = Some (Some bs, world_with bs)"
  by (simp add: image_from_path_def read_file_def world_with_def has_suffix_def)

theorem run_exit_status_witness:
  "\<exists>vm' w'. cmd_run (machine_with []) ''p.bvm'' (world_with sample_image) = Some (exit_status vm', w')"
  using run_exit_status [OF world_image sample_image_load, of "machine_with []"] by blast

lemma cmd_run_total:
  "image_from_path path w = Some (Some img, w1) \<Longrightarrow>
     \<exists>code h err. cmd_run vm0 path w = Some (code, w1\<lparr>w_host := h, w_err := w_err w1 @ err\<rparr>) \<and> 0 \<le> code \<and> code \<le> 255"
proof (cases "header_ok img")
  case True
  assume "image_from_path path w = Some (Some img, w1)"
  from run_image [OF this True, of vm0] exit_status_range show ?thesis by fast
next
  case False
  assume "image_from_path path w = Some (Some img, w1)"
  with False have "cmd_run vm0 path w = Some (1, w1\<lparr>w_host := w_host w1,
      w_err := w_err w1 @ ''bytevm: '' @ vm_result_str VM_ERR_BAD_BYTECODE_HEADER @ [CHR 0x0A]\<rparr>)"
    by (simp add: cmd_run_def loader.load_bad eprint_def)
  then show ?thesis by (metis zero_le_one one_le_numeral)
qed

text \<open>What a run does depends on the image, the console and standard error only.\<close>

lemma cmd_run_same:
  assumes "image_from_path p w = Some (Some img, w)" "image_from_path q v = Some (Some img, v)"
    and "w_host v = w_host w" "w_err v = w_err w"
  shows "\<exists>code w1 v1. cmd_run vm0 p w = Some (code, w1) \<and> cmd_run vm0 q v = Some (code, v1) \<and>
    w_host v1 = w_host w1 \<and> w_err v1 = w_err w1"
proof -
  obtain load vm where l: "vm_load (vm_init vm0) img = Some (load, vm)" using loader.load_total by blast
  from cmd_run_total [OF assms(1), of vm0] cmd_run_total [OF assms(2), of vm0] obtain c1 w1 c2 v1 where
    r: "cmd_run vm0 p w = Some (c1, w1)" "cmd_run vm0 q v = Some (c2, v1)" by blast
  have "c1 = c2 \<and> w_host v1 = w_host w1 \<and> w_err v1 = w_err w1"
  proof (cases "load = VM_OK")
    case True
    with r(1) assms l obtain a b where ab: "run_loop 0 vm (w_host w) = Some (a, b)" by (auto simp: cmd_run_def)
    show ?thesis
      using r assms l True ab
      by (cases "vm_last_error a = VM_OK"; cases "vm_halted a") (auto simp: cmd_run_def eprint_def)
  next
    case False
    then show ?thesis using r assms l by (auto simp: cmd_run_def eprint_def)
  qed
  with r show ?thesis by blast
qed

lemma image_from_path_world: "image_from_path path w = Some (Some img, w1) \<Longrightarrow> w1 = w"
  by (auto simp: image_from_path_def read_file_def split: option.split_asm if_split_asm sum.split_asm asm_error.split_asm)

lemma cmd_asm_success:
  assumes "cmd_asm src_path out_path w = Some (0, w')"
  shows "\<exists>img. image_from_path src_path w = Some (Some img, w) \<and> w_writable w out_path \<and> length img \<le> w_room w \<and>
    w_files w' out_path = Some (case w_lost w out_path of None \<Rightarrow> img | Some n \<Rightarrow> take n img) \<and>
    w_err w' = w_err w \<and> disk_ok w' out_path = disk_ok w out_path"
proof -
  from assms obtain img w1 where i: "image_from_path src_path w = Some (Some img, w1)"
    by (auto simp: cmd_asm_def split: option.split_asm)
  have "w1 = w" by (rule image_from_path_world [OF i])
  with i assms show ?thesis
    by (auto simp: cmd_asm_def Let_def oprint_def disk_ok_def min_def split: if_split_asm option.split)
qed

text \<open>
  C19: assembling to a file and running the file is running the source. When asm reports success
  and closing the output file loses nothing, the output file (its name not ending in .asm) holds
  exactly the image of the input and, if it can be read back, running it on the same console
  gives the same exit status, the same console and the same error text as running the input
  path directly.
\<close>

theorem asm_then_run:
  assumes "cmd_asm src_path out_path w = Some (0, w')" "w_lost w out_path = None"
    and "\<not> has_suffix out_path ''.asm''" "disk_ok w out_path"
  shows "\<exists>img code w1 w2. image_from_path src_path w = Some (Some img, w) \<and> w_files w' out_path = Some img \<and>
    cmd_run vm0 src_path w = Some (code, w1) \<and>
    cmd_run vm0 out_path (w'\<lparr>w_host := w_host w\<rparr>) = Some (code, w2) \<and> w_host w2 = w_host w1 \<and> w_err w2 = w_err w1"
proof -
  from cmd_asm_success [OF assms(1)] assms(2) obtain img where
    i: "image_from_path src_path w = Some (Some img, w)" "w_files w' out_path = Some img" "w_err w' = w_err w"
      "disk_ok w' out_path = disk_ok w out_path" by auto
  have "image_from_path out_path (w'\<lparr>w_host := w_host w\<rparr>) = Some (Some img, w'\<lparr>w_host := w_host w\<rparr>)"
    using assms(3,4) i(2,4) by (simp add: image_from_path_def read_file_def disk_ok_def)
  then show ?thesis using cmd_run_same [of src_path w img out_path "w'\<lparr>w_host := w_host w\<rparr>" vm0] i by simp
qed

text \<open>The bytes of a text file.\<close>

definition text_bytes :: "string \<Rightarrow> u8 list" where
  "text_bytes s = map (\<lambda>c. of_nat (of_char c)) s"

abbreviation no_nul :: "string \<Rightarrow> bool" where
  "no_nul s \<equiv> CHR 0x00 \<notin> set s"

lemma source_text_bytes: "no_nul s \<Longrightarrow> source_text (text_bytes s) = s"
proof -
  have "char_of (unat (of_nat (of_char c) :: u8)) = c" for c
    by (simp add: unat_of_nat)
  then show "no_nul s \<Longrightarrow> source_text (text_bytes s) = s"
    by (simp add: source_text_def text_bytes_def comp_def cstr_def takeWhile_eq_all_conv) metis
qed

definition source_world :: "string \<Rightarrow> World" where
  "source_world s = (world_with [])\<lparr>w_files := [''p.asm'' \<mapsto> text_bytes s]\<rparr>"

lemma nop_source:
  "image_from_path ''p.asm'' (source_world ''NOP'') = Some (Some (bvm_image 0 0 [0, 0] 0 []), source_world ''NOP'')"
proof -
  have "source_text (text_bytes ''NOP'') = ''NOP''" by (rule source_text_bytes) simp
  then show ?thesis
    by (simp add: image_from_path_def read_file_def source_world_def world_with_def has_suffix_def assemble_nop)
qed

theorem asm_then_run_witness:
  "\<exists>img code w' w1 w2. cmd_asm ''p.asm'' ''q.bvm'' (source_world ''NOP'') = Some (0, w') \<and>
     w_files w' ''q.bvm'' = Some img \<and>
     cmd_run (machine_with []) ''p.asm'' (source_world ''NOP'') = Some (code, w1) \<and>
     cmd_run (machine_with []) ''q.bvm'' (w'\<lparr>w_host := w_host (source_world ''NOP'')\<rparr>) = Some (code, w2) \<and> w_host w2 = w_host w1"
proof -
  let ?w = "source_world ''NOP''"
  have w: "w_writable ?w ''q.bvm''" "w_room ?w = 100000" "w_lost ?w ''q.bvm'' = None" "disk_ok ?w ''q.bvm''"
    "\<not> has_suffix ''q.bvm'' ''.asm''"
    by (simp_all add: source_world_def world_with_def disk_ok_def has_suffix_def)
  have "length (bvm_image 0 0 [0, 0] 0 []) \<le> 100000" by (simp add: bvm_image_def)
  with w have "\<exists>w'. cmd_asm ''p.asm'' ''q.bvm'' ?w = Some (0, w')"
    by (simp add: cmd_asm_def nop_source Let_def min_def)
  then obtain w' where a: "cmd_asm ''p.asm'' ''q.bvm'' ?w = Some (0, w')" by blast
  from asm_then_run [OF a w(3,5,4), of "machine_with []"] a show ?thesis by blast
qed

text \<open>
  C26: what asm promises about its output file. For an input that has an image, asm exits with
  status 0 exactly when the output can be opened and fwrite accepts every byte, and leaves all
  other files alone; the output file then holds the image, or only the part of it that was
  flushed: that closing the file failed is not noticed.
\<close>

theorem asm_output_file:
  assumes "image_from_path src_path w = Some (Some img, w)"
  shows "\<exists>code w'. cmd_asm src_path out_path w = Some (code, w') \<and>
    (code = 0 \<longleftrightarrow> w_writable w out_path \<and> length img \<le> w_room w) \<and>
    (code = 0 \<longrightarrow> w_files w' out_path = Some (case w_lost w out_path of None \<Rightarrow> img | Some n \<Rightarrow> take n img)) \<and>
    (\<not> w_writable w out_path \<longrightarrow> w_files w' = w_files w) \<and>
    (\<forall>path. path \<noteq> out_path \<longrightarrow> w_files w' path = w_files w path)"
  using assms by (auto simp: cmd_asm_def Let_def oprint_def eprint_def min_def split: option.split)

theorem asm_output_file_witness:
  "\<exists>w'. cmd_asm ''p.bvm'' ''q.bvm'' ((world_with sample_image)\<lparr>w_lost := \<lambda>_. Some 3\<rparr>) = Some (0, w') \<and>
     w_files w' ''q.bvm'' = Some (take 3 sample_image)"
proof -
  let ?w = "(world_with sample_image)\<lparr>w_lost := \<lambda>_. Some 3\<rparr>"
  have "image_from_path ''p.bvm'' ?w = Some (Some sample_image, ?w)"
    by (simp add: image_from_path_def read_file_def world_with_def has_suffix_def)
  from asm_output_file [OF this, of "''q.bvm''"] show ?thesis
    by (auto simp: world_with_def sample_image_def bvm_image_def)
qed

subsection \<open>Disassembling to a file\<close>

text \<open>A disassembly has no NUL character, so read back as a C string it is whole.\<close>

lemma no_nul_numbers [simp]: "no_nul (fmt_u n)" "no_nul (fmt_0X k n)"
proof -
  show "no_nul (fmt_u n)"
    using show_base_digits [of n] by (auto simp: fmt_u_def list_all_iff is_digit_def)
  show "no_nul (fmt_0X k n)"
    using fmt_0X_hex(2) [of k n] by (auto simp: list_all_iff is_xdigit_def is_digit_def)
qed

lemma no_nul_mnemonic: "mnemonic_for op = Some s \<Longrightarrow> no_nul s"
  by (cases op) auto

lemma no_nul_operand: "no_nul (operand_text opcode legal op)"
  by (simp add: operand_text_def syscall_name_for_def split: AddrMode.split)

lemma no_nul_item: "no_nul (item_line it)"
  by (cases it) (auto simp: instr_text_def Let_def no_nul_operand dest: no_nul_mnemonic [OF sym] split: option.split)

lemma no_nul_text: "no_nul (dis_text ca cn da dat its)"
  by (simp add: dis_text_def head_text_def org_line_def no_nul_item)

text \<open>
  C20: a disassembly saved to a file assembles to the image it came from. For a readable file that
  holds the image of a program in canonical layout, dis prints a text; with that text stored under a
  name ending in .asm, asm writes a file with exactly the bytes of the image, if the output can
  be written, closing it included.
\<close>

theorem dis_then_asm:
  assumes "w_files w path = Some (bvm_image ca ca code da dat)" "\<not> has_suffix path ''.asm''"
    and "canonical_image ca code da dat" "disk_ok w path" "disk_ok w src_path"
    and "has_suffix src_path ''.asm''" "w_writable w out_path" "length (bvm_image ca ca code da dat) \<le> w_room w"
    and "w_lost w out_path = None"
  shows "\<exists>text w1 w2. cmd_dis path w = Some (0, w1) \<and> host_out (w_host w1) = host_out (w_host w) @ text \<and>
    cmd_asm src_path out_path (w1\<lparr>w_files := (w_files w1)(src_path \<mapsto> text_bytes text)\<rparr>) = Some (0, w2) \<and>
    w_files w2 out_path = Some (bvm_image ca ca code da dat)"
proof -
  from image_disassembly [OF canonical_lengths [OF assms(3)], of da] obtain its where
    d: "disassemble (bvm_image ca ca code da dat) = Some (Inr (dis_text ca (of_nat (length code)) da dat its))"
    "list_all item_wf its" "concat (map item_bytes its) = code" by blast
  let ?text = "dis_text ca (of_nat (length code)) da dat its"
  have "cmd_dis path w = Some (0, oprint w ?text)"
    using assms(1,2,4) d(1) by (simp add: cmd_dis_def image_from_path_def read_file_def disk_ok_def)
  moreover have "assemble (source_text (text_bytes ?text)) = Some (Inr (bvm_image ca ca code da dat))"
    using reassemble [OF assms(3) d(2,3)] by (simp add: source_text_bytes no_nul_text)
  ultimately show ?thesis
    using assms(5-9)
    by (simp add: cmd_asm_def image_from_path_def read_file_def oprint_def putstr_def Let_def disk_ok_def)
qed

theorem dis_then_asm_witness:
  "\<exists>text w1 w2. cmd_dis ''p.bvm'' (world_with (bvm_image 0 0 [0, 0] 0 [])) = Some (0, w1) \<and>
    cmd_asm ''p.asm'' ''q.bvm'' (w1\<lparr>w_files := (w_files w1)(''p.asm'' \<mapsto> text_bytes text)\<rparr>) = Some (0, w2) \<and>
    w_files w2 ''q.bvm'' = Some (bvm_image 0 0 [0, 0] 0 [])"
  using dis_then_asm [of "world_with (bvm_image 0 0 [0, 0] 0 [])" "''p.bvm''" 0 "[0, 0]" 0 "[]" "''p.asm''" "''q.bvm''"]
  by (simp add: world_with_def has_suffix_def canonical_image_def bvm_image_def disk_ok_def) blast

subsection \<open>Every invocation ends\<close>

lemma cmd_debug_total:
  assumes "image_from_path path w = Some (Some img, w1)"
  shows "\<exists>code w'. cmd_debug vm0 path w = Some (code, w') \<and> 0 \<le> code \<and> code \<le> 1"
proof (cases "header_ok img")
  case True
  then have "dbg_inv (debugger_init (image_start img) img)"
    using loader.start_inv by (simp add: debugger_init_def dbg_inv_def)
  from report_stop_total [of "debugger_init (image_start img) img"] repl_loop_ends [OF this] True assms
  show ?thesis by (fastforce simp: cmd_debug_def loader.load_good debugger_repl_def)
next
  case False
  then show ?thesis using assms by (simp add: cmd_debug_def loader.load_bad)
qed

text \<open>
  C27: the program always ends with an exit status from 0 to 255, whatever its arguments, files and
  console input are, as long as the assembler meets no undefined behaviour on the named file:
  running is cut at the step limit, a debugger session ends with its input.
\<close>

theorem main_ends:
  assumes "argv \<noteq> []" "3 \<le> length argv \<longrightarrow> image_from_path (argv ! 2) w \<noteq> None"
  shows "\<exists>code w'. main vm0 argv w = Some (code, w') \<and> 0 \<le> code \<and> code \<le> 255"
proof (cases "3 \<le> length argv")
  case True
  then obtain img w1 where i: "image_from_path (argv ! 2) w = Some (img, w1)" using assms(2) by auto
  show ?thesis
  proof (cases img)
    case None
    with i assms(1) show ?thesis by (simp add: main_def cmd_run_def cmd_asm_def cmd_dis_def cmd_debug_def)
  next
    case (Some bs)
    note i = i [unfolded Some]
    have "\<exists>code w'. cmd_run vm0 (argv ! 2) w = Some (code, w') \<and> 0 \<le> code \<and> code \<le> 255"
      using cmd_run_total [OF i] by blast
    moreover have "\<exists>code w'. cmd_asm (argv ! 2) (argv ! 3) w = Some (code, w') \<and> 0 \<le> code \<and> code \<le> 255"
      using i by (simp add: cmd_asm_def Let_def)
    moreover have "\<exists>code w'. cmd_dis (argv ! 2) w = Some (code, w') \<and> 0 \<le> code \<and> code \<le> 255"
    proof -
      obtain r where "disassemble bs = Some r"
        using disassemble_error [of bs] disassemble_ok [of bs] by (cases "dis_error bs") auto
      then show ?thesis using i by (cases r) (simp_all add: cmd_dis_def)
    qed
    moreover have "\<exists>code w'. cmd_debug vm0 (argv ! 2) w = Some (code, w') \<and> 0 \<le> code \<and> code \<le> 255"
      using cmd_debug_total [OF i, of vm0] by fastforce
    ultimately show ?thesis using assms(1) by (simp add: main_def)
  qed
next
  case False
  then show ?thesis using assms(1) by (simp add: main_def)
qed

theorem main_ends_witness:
  "\<exists>code w'. main (machine_with []) [''bytevm'', ''debug'', ''p.bvm''] (world_with sample_image) = Some (code, w') \<and> 0 \<le> code \<and> code \<le> 255"
  by (rule main_ends) (simp_all add: world_image)

end
