(* ===== verification/Bvm_Bounds.thy ===== *)
theory Bvm_Bounds
  imports Bvm_Roundtrip
begin

text \<open>
  The limits of the assembler (src/assembler/parser.c): what pass 1 guarantees of a statement,
  exactly which statements pass 2 writes outside the 64 KB buffers for, and what becomes of
  programs and values that are too large.
\<close>

unbundle bit_operations_syntax

subsection \<open>Typed statements\<close>

lemma pass1_stmt_ok:
  assumes "pass1_step\<^sup>*\<^sup>* ([], symtab_init, section_zero) (stmts, symtab, sec)"
  shows "\<forall>st \<in> set stmts. stmt_ok st"
proof -
  have label: "stmt_ok (label_statement n l a)" for n l a
    by (simp add: stmt_ok_def label_statement_def statement_zero_def)
  have "\<forall>st \<in> set (fst (stmts, symtab, sec)). stmt_ok st"
    using assms by (induction rule: rtranclp_induct) (auto elim!: pass1_step.cases simp: label)
  then show ?thesis by simp
qed

lemma mode_byte_size_le: "mode_byte_size m \<le> 2"
  by (simp add: mode_byte_size_def split: AddrMode.split)

text \<open>
  C12: pass 1 only builds well-formed statements: an instruction has a valid opcode, modes that
  the opcode table allows, exactly the operands its modes need, register indexes from 0 to 7,
  and the encoded size of its modes, between 2 and 6 bytes; the size of a string, word or byte
  statement is the number of bytes it emits.
\<close>

theorem pass1_typed:
  assumes "build_statements [] symtab_init section_zero toks = Some (Inr (stmts, symtab, sec))"
    and "st \<in> set stmts"
  shows "stmt_ok st \<and>
    (st_kind st = STMT_INSTRUCTION \<longrightarrow> 2 \<le> st_encoded_size st \<and> st_encoded_size st \<le> 6)"
proof -
  have ok: "stmt_ok st"
    using pass1_stmt_ok [OF conjunct1 [OF build_statements_steps [OF assms(1)]]] assms(2) by blast
  then show ?thesis
    using mode_byte_size_nonneg [of "st_op1_mode st"] mode_byte_size_nonneg [of "st_op2_mode st"]
      mode_byte_size_le [of "st_op1_mode st"] mode_byte_size_le [of "st_op2_mode st"]
    by (auto simp: stmt_ok_def)
qed

theorem pass1_typed_witness: "stmt_ok nop_token_statement \<and> st_encoded_size nop_token_statement \<le> 6"
proof -
  have "st_kind nop_token_statement = STMT_INSTRUCTION" by code_simp
  then show ?thesis using pass1_typed [OF build_nop, of nop_token_statement] by simp
qed

subsection \<open>Writing the 64 KB buffers\<close>

text \<open>
  The statements that pass 2 writes past the end of a buffer for. The address of an instruction
  is a 16-bit counter that wraps between its operands, so only the second byte of a pair can
  lie outside.
\<close>

definition wide :: "AddrMode \<Rightarrow> bool" where
  "wide m \<longleftrightarrow> m = MODE_IMM16 \<or> m = MODE_MEM_DIRECT"

definition overruns :: "Statement \<Rightarrow> bool" where
  "overruns st =
     (case st_kind st of
        STMT_INSTRUCTION \<Rightarrow> st_address st = 0xFFFF \<or>
          (wide (st_op1_mode st) \<and> st_address st = 0xFFFD) \<or>
          (wide (st_op2_mode st) \<and> st_address st + of_int (mode_byte_size (st_op1_mode st)) = 0xFFFD)
      | STMT_STRING \<Rightarrow> unat (st_address st) + length (st_string_bytes st) \<ge> 65536
      | STMT_WORD \<Rightarrow> st_address st = 0xFFFF
      | _ \<Rightarrow> False)"

lemma buf_copy_overrun:
  "buf_copy buf i bs = Inl e \<longleftrightarrow> e = AsmUB \<and> bs \<noteq> [] \<and> i + length bs > 65536"
  by (induction bs arbitrary: buf i) (auto simp: buf_write_def asm_bind_def split: if_split_asm)

lemma buf_write_word: "buf_write buf (unat (a :: u16)) b = Inr (buf(a := b))"
  using unat_lt_65536 [of a] by (simp add: buf_write_def)

lemma buf_write_next:
  "buf_write buf (unat (a :: u16) + 1) b = (if a = 0xFFFF then Inl AsmUB else Inr (buf(a + 1 := b)))"
proof -
  have "a = 0xFFFF \<longleftrightarrow> unat a = 65535" by (simp add: word_unat_eq_iff)
  then show ?thesis using unat_lt_65536 [of a] by (auto simp: buf_write_def add.commute)
qed

lemma emit_operand_overrun:
  "wide m \<and> a = 0xFFFF \<Longrightarrow> emit_operand_bytes t a m v = Inl AsmUB"
  "\<not> (wide m \<and> a = 0xFFFF) \<Longrightarrow> \<exists>t'. emit_operand_bytes t a m v = Inr (t', a + of_int (mode_byte_size m))"
proof -
  show "emit_operand_bytes t a m v = Inl AsmUB" if "wide m \<and> a = 0xFFFF"
    using that by (auto simp: emit_operand_bytes_def wide_def buf_write_def Let_def)
  show "\<exists>t'. emit_operand_bytes t a m v = Inr (t', a + of_int (mode_byte_size m))" if n: "\<not> (wide m \<and> a = 0xFFFF)"
  proof (cases "wide m")
    case True
    with n have "a \<noteq> 0xFFFF" by simp
    with True show ?thesis
      by (auto simp only: emit_operand_bytes_def wide_def buf_write_word buf_write_next asm_bind_Inr Let_def
          mode_byte_size_def AddrMode.simps AddrMode.distinct insert_iff empty_iff if_False if_True simp_thms
          of_int_numeral Inr_inject prod.inject)
  next
    case False
    then show ?thesis
      by (cases m) (simp_all add: emit_operand_bytes_def wide_def buf_write_word mode_byte_size_def)
  qed
qed

lemma emit_instruction_overrun:
  assumes "operand_value (st_operand_count st \<ge> 1) (st_op1 st) (st_op1_mode st) symtab = Inr v1"
    "operand_value (st_operand_count st \<ge> 2) (st_op2 st) (st_op2_mode st) symtab = Inr v2" "st_kind st = STMT_INSTRUCTION"
  shows "(overruns st \<longrightarrow> emit_instruction st symtab target = Inl AsmUB) \<and>
    (\<not> overruns st \<longrightarrow> (\<exists>target'. emit_instruction st symtab target = Inr target'))"
proof (cases "st_address st = 0xFFFF")
  case True
  then show ?thesis
    using assms by (simp add: emit_instruction_def overruns_def Let_def buf_write_def)
next
  case False
  let ?a = "st_address st" and ?m = "st_op1_mode st" and ?m2 = "st_op2_mode st"
  have w: "?a + 2 = 0xFFFF \<longleftrightarrow> ?a = 0xFFFD" "?a + 2 + of_int k = 0xFFFF \<longleftrightarrow> ?a + of_int k = 0xFFFD" for k
    using add_right_cancel [of ?a 2 "0xFFFD"] add_right_cancel [of "?a + of_int k" 2 "0xFFFD"]
    by (simp_all add: add.assoc add.commute [of 2])
  obtain t where e: "emit_instruction st symtab target =
      asm_bind (emit_operand_bytes t (?a + 2) ?m v1) (\<lambda>(t, a). asm_bind (emit_operand_bytes t a ?m2 v2) (\<lambda>(t, a). Inr t))"
    using assms False by (simp add: emit_instruction_def Let_def buf_write_next buf_write_word del: One_nat_def)
  have o: "overruns st \<longleftrightarrow> wide ?m \<and> ?a + 2 = 0xFFFF \<or> wide ?m2 \<and> ?a + 2 + of_int (mode_byte_size ?m) = 0xFFFF"
    using assms(3) False by (simp add: overruns_def w)
  show ?thesis
  proof (cases "wide ?m \<and> ?a + 2 = 0xFFFF")
    case True
    then show ?thesis using o e by (simp add: emit_operand_overrun(1))
  next
    case n1: False
    from emit_operand_overrun(2) [OF n1, of t v1] obtain t1 where
      "emit_operand_bytes t (?a + 2) ?m v1 = Inr (t1, ?a + 2 + of_int (mode_byte_size ?m))" by blast
    with e n1 o show ?thesis
      using emit_operand_overrun [of ?m2 "?a + 2 + of_int (mode_byte_size ?m)" t1 v2] by auto
  qed
qed

lemma fits_no_overrun:
  assumes "stmt_ok st" "stmt_end st \<le> 65536"
  shows "\<not> overruns st"
proof
  let ?a = "st_address st" and ?k = "nat (mode_byte_size (st_op1_mode st))"
  assume o: "overruns st"
  have top: "unat a = unat b" if "a = b" for a b :: u16 using that by simp
  note nn = mode_byte_size_nonneg [of "st_op1_mode st"] mode_byte_size_nonneg [of "st_op2_mode st"]
  have w: "mode_byte_size m = 2" if "wide m" for m using that by (auto simp: wide_def mode_byte_size_def)
  show False
  proof (cases "st_kind st = STMT_INSTRUCTION")
    case True
    have e: "unat ?a + 2 + ?k + nat (mode_byte_size (st_op2_mode st)) \<le> 65536"
      using assms True nn by (simp add: stmt_ok_def stmt_end_def nat_add_distrib)
    then have "unat (?a + of_nat ?k) = unat ?a + ?k" by (intro unat_add_nat) simp
    with e o True w [of "st_op1_mode st"] w [of "st_op2_mode st"] nn show False
      by (auto simp: overruns_def dest!: top)
  qed (use assms o in \<open>auto simp: overruns_def stmt_ok_def stmt_end_def split: StmtKind.split_asm dest!: top\<close>)
qed

lemma emit_data_exact:
  assumes "st_kind st \<noteq> STMT_INSTRUCTION"
  shows "(emit_bytes st symtab target = Inl AsmUB \<longleftrightarrow> values_ok symtab st \<and> overruns st) \<and>
    ((\<exists>msg line. emit_bytes st symtab target = Inl (AsmError msg line)) \<longleftrightarrow> \<not> values_ok symtab st)"
proof -
  let ?a = "st_address st"
  have string: "asm_bind (buf_copy target (unat ?a) bs) (\<lambda>target. buf_write target (unat ?a + length bs) 0) =
      (if unat ?a + length bs \<ge> 65536 then Inl AsmUB else Inr (buf_put target ?a (bs @ [0])))" for bs
    using buf_copy_put [of ?a "bs @ [0]" target] buf_copy_overrun [of target "unat ?a" "bs @ [0]"]
    by (auto simp: buf_copy_append)
  have word: "asm_bind (buf_write target (unat ?a) x) (\<lambda>target. buf_write target (unat ?a + 1) y) =
      (if ?a = 0xFFFF then Inl AsmUB else Inr (target(?a := x, ?a + 1 := y)))" for x y
    by (simp add: buf_write_word buf_write_next del: One_nat_def add_Suc_right)
  show ?thesis
    using assms string word resolve_value_defined [of "st_word_operand st" symtab]
    by (cases "value_defined (st_word_operand st) symtab"; cases "st_kind st")
      (auto simp: emit_bytes_def values_ok_def overruns_def buf_write_word fail_def Let_def split: sum.split if_split_asm)
qed

lemma emit_bytes_exact:
  assumes "stmt_ok st"
  shows "(emit_bytes st symtab target = Inl AsmUB \<longleftrightarrow> values_ok symtab st \<and> overruns st) \<and>
    ((\<exists>msg line. emit_bytes st symtab target = Inl (AsmError msg line)) \<longleftrightarrow> \<not> values_ok symtab st)"
proof (cases "st_kind st = STMT_INSTRUCTION")
  case k: True
  then have e: "emit_bytes st symtab target = emit_instruction st symtab target" by (simp add: emit_bytes_def)
  show ?thesis
  proof (cases "values_ok symtab st")
    case True
    have ok: "operand_ok (st_operand_count st \<ge> 1) (st_op1 st) (st_op1_mode st) (info_op1_modes (opcode_info (st_opcode st)))"
      "operand_ok (st_operand_count st \<ge> 2) (st_op2 st) (st_op2_mode st) (info_op2_modes (opcode_info (st_opcode st)))"
      using assms k by (auto simp: stmt_ok_def)
    have "operand_fine symtab (st_op1 st) (st_op1_mode st)" "operand_fine symtab (st_op2 st) (st_op2_mode st)"
      using True k by (auto simp: values_ok_def)
    from emit_instruction_overrun [OF operand_value_fine(1) [OF ok(1) this(1)] operand_value_fine(1) [OF ok(2) this(2)] k, of target]
    show ?thesis using True by (auto simp: e)
  next
    case False
    then show ?thesis using emit_instruction_fails [OF assms k False, of target] by (auto simp: e)
  qed
qed (rule emit_data_exact)

text \<open>
  C11: emission is in bounds exactly when it should be. A well-formed statement is reported as an
  error exactly when it names an undefined label or has a value out of range: an operand of 16
  bits outside -32768 to 65535, one of 8 bits or a .byte outside 0 to 255. Otherwise it is
  written, and outside its 64 KB buffer exactly when it overruns the top (its opcode pair, one
  of its 16-bit operands, or its string or word); a statement that ends by 0x10000 never
  overruns.
\<close>

theorem emission_exact:
  assumes "stmt_ok st"
  shows "(emit_bytes st symtab target = Inl AsmUB \<longleftrightarrow> values_ok symtab st \<and> overruns st) \<and>
    ((\<exists>msg line. emit_bytes st symtab target = Inl (AsmError msg line)) \<longleftrightarrow> \<not> values_ok symtab st) \<and>
    (stmt_end st \<le> 65536 \<longrightarrow> \<not> overruns st)"
  using emit_bytes_exact [OF assms] fits_no_overrun [OF assms] by blast

theorem emission_exact_witness:
  "emit_bytes (nop_token_statement\<lparr>st_address := 0xFFFF\<rparr>) symtab_init (\<lambda>_. 0) = Inl AsmUB \<and>
   \<not> overruns (nop_token_statement\<lparr>st_address := 0xFFFE\<rparr>)"
proof -
  have "stmt_ok (nop_token_statement\<lparr>st_address := 0xFFFF\<rparr>)" "stmt_ok (nop_token_statement\<lparr>st_address := 0xFFFE\<rparr>)"
    "st_encoded_size nop_token_statement = 2" "overruns (nop_token_statement\<lparr>st_address := 0xFFFF\<rparr>)"
    "values_ok symtab_init (nop_token_statement\<lparr>st_address := 0xFFFF\<rparr>)"
    by code_simp+
  then show ?thesis
    using emission_exact [of "nop_token_statement\<lparr>st_address := 0xFFFF\<rparr>" symtab_init "\<lambda>_. 0"]
      emission_exact [of "nop_token_statement\<lparr>st_address := 0xFFFE\<rparr>"]
    by (simp add: stmt_end_def)
qed

subsection \<open>Programs that are too large\<close>

text \<open>An instruction without operands.\<close>

definition plain :: "Opcode \<Rightarrow> nat \<Rightarrow> u16 \<Rightarrow> Statement" where
  "plain op l a = (instruction_statement op l 0 operand_zero operand_zero MODE_NONE MODE_NONE)\<lparr>st_address := a, st_encoded_size := 2\<rparr>"

lemma plain_emit:
  "emit_statement (plain op l a) symtab out =
     (if a = 0xFFFF then Inl AsmUB
      else Inr (out\<lparr>pr_code := (pr_code out)(a := opcode_code op, a + 1 := 0)\<rparr>))"
  by (simp add: plain_def emit_statement_def emit_bytes_def emit_instruction_def instruction_statement_def statement_zero_def
      operand_value_def emit_operand_bytes_def buf_write_word buf_write_next Let_def del: One_nat_def add_Suc_right)

lemma org_emit: "emit_statement (org_stmt l) symtab out = Inr out"
  by (simp add: org_stmt_def emit_statement_def emit_bytes_def statement_zero_def)

definition wrap_toks :: "Token list" where
  "wrap_toks = [text_tok TOK_IDENT 1 ''NOP'', simple_tok TOK_NEWLINE 1, text_tok TOK_DIRECTIVE 2 ''org'', num_tok 2 0xFFFE,
     simple_tok TOK_NEWLINE 2, text_tok TOK_IDENT 3 ''NOP'', simple_tok TOK_NEWLINE 3, text_tok TOK_IDENT 4 ''HALT'',
     simple_tok TOK_EOF 4]"

lemma lex_org_line:
  "lex_loop (''.org 0xFFFE'' @ CHR 0x0A # p) l out =
     lex_loop p (l + 1) (out @ [text_tok TOK_DIRECTIVE l ''org'', num_tok l 0xFFFE, simple_tok TOK_NEWLINE l])"
proof -
  have "lex_round (CHR ''0'') (''xFFFE'' @ CHR 0x0A # p) l = Inr (CHR 0x0A # p, l, Some (num_tok l 0xFFFE))"
    by (simp add: lex_round_def lex_number_def lex_magnitude_def is_digit_def is_xdigit_def hex_val_def to_lower_def
        is_upper_def is_alpha_def is_lower_def int64_max_def Let_def)
  from lex_loop_round [OF this] have "lex_loop (''0xFFFE'' @ CHR 0x0A # p) l out' = lex_loop p (l + 1) (out' @ [num_tok l 0xFFFE, simple_tok TOK_NEWLINE l])" for out'
    by simp
  then show ?thesis
    using lex_directive [of "''org''" "CHR '' ''" "''0xFFFE'' @ CHR 0x0A # p" l out]
    by (simp add: directive_ok_def is_alpha_def is_lower_def is_upper_def)
qed

lemma lex_word_line:
  "ident_ok s \<Longrightarrow> lex_loop (s @ CHR 0x0A # p) l out = lex_loop p (l + 1) (out @ [text_tok TOK_IDENT l s, simple_tok TOK_NEWLINE l])"
  by (simp add: lex_ident is_ident_char_def is_alnum_def is_alpha_def is_upper_def is_lower_def is_digit_def)

lemma lex_wrap: "lex (''NOP'' @ [CHR 0x0A] @ ''.org 0xFFFE'' @ [CHR 0x0A] @ ''NOP'' @ [CHR 0x0A] @ ''HALT'') = Inr wrap_toks"
proof -
  let ?n = "''NOP''" and ?fin = "lex_loop ''HALT'' 4 (take 7 wrap_toks)"
  have nop: "ident_ok ?n" and halt: "?fin = Inr wrap_toks" by code_simp+
  have "?fin = lex_loop (?n @ CHR 0x0A # ''HALT'') 3 (take 5 wrap_toks)"
    by (simp only: lex_word_line [OF nop]) (simp add: wrap_toks_def)
  also have "\<dots> = lex_loop (''.org 0xFFFE'' @ CHR 0x0A # ?n @ CHR 0x0A # ''HALT'') 2 (take 2 wrap_toks)"
    by (simp only: lex_org_line) (simp add: wrap_toks_def)
  also have "\<dots> = lex_loop (?n @ CHR 0x0A # ''.org 0xFFFE'' @ CHR 0x0A # ?n @ CHR 0x0A # ''HALT'') 1 []"
    by (simp only: lex_word_line [OF nop]) (simp add: wrap_toks_def numeral_2_eq_2)
  finally have "lex_loop (?n @ CHR 0x0A # ''.org 0xFFFE'' @ CHR 0x0A # ?n @ CHR 0x0A # ''HALT'') 1 [] = Inr wrap_toks"
    using halt by (rule trans [OF sym])
  then show ?thesis unfolding lex_ok_iff by simp
qed

lemma build_wrap: "build_statements [] symtab_init section_zero wrap_toks =
   Some (Inr ([plain OP_NOP 1 0, org_stmt 2, plain OP_NOP 3 0xFFFE, plain OP_HALT 4 0], symtab_init,
     section_zero\<lparr>sec_code_started := True, sec_code_cursor := 2\<rparr>))"
  by code_simp

lemma lex_halt: "lex ''HALT'' = Inr [text_tok TOK_IDENT 1 ''HALT'', simple_tok TOK_EOF 1]"
  by code_simp

lemma build_halt: "build_statements [] symtab_init section_zero [text_tok TOK_IDENT 1 ''HALT'', simple_tok TOK_EOF 1] =
   Some (Inr ([plain OP_HALT 1 0], symtab_init, section_zero\<lparr>sec_code_started := True, sec_code_cursor := 2\<rparr>))"
  by code_simp

lemma lex_top: "lex (''.org 0xFFFF'' @ [CHR 0x0A] @ ''NOP'') =
   Inr [text_tok TOK_DIRECTIVE 1 ''org'', num_tok 1 0xFFFF, simple_tok TOK_NEWLINE 1, text_tok TOK_IDENT 2 ''NOP'', simple_tok TOK_EOF 2]"
  by code_simp

lemma build_top: "build_statements [] symtab_init section_zero
     [text_tok TOK_DIRECTIVE 1 ''org'', num_tok 1 0xFFFF, simple_tok TOK_NEWLINE 1, text_tok TOK_IDENT 2 ''NOP'', simple_tok TOK_EOF 2] =
   Some (Inr ([org_stmt 1, plain OP_NOP 2 0xFFFF], symtab_init,
     section_zero\<lparr>sec_code_started := True, sec_code_start_addr := 0xFFFF, sec_code_cursor := 1\<rparr>))"
  by code_simp

text \<open>Three instructions that assemble, without an error, to the image of the last one.\<close>

lemma wrapped_program:
  "assemble (''NOP'' @ [CHR 0x0A] @ ''.org 0xFFFE'' @ [CHR 0x0A] @ ''NOP'' @ [CHR 0x0A] @ ''HALT'') = assemble ''HALT''"
proof -
  have w: "write_image (final_result (parse_result_zero\<lparr>pr_code := b\<rparr>) (section_zero\<lparr>sec_code_started := True, sec_code_cursor := 2\<rparr>)) =
      Inr (bvm_image 0 0 [b 0, b 1] 0 [])" for b
    by (simp add: write_image_def final_result_def section_zero_def parse_result_zero_def buf_slice_def upt_rec
        bvm_image_def write_u16_le_def le16_def)
  note emit = plain_emit org_emit parse_result_zero_def w [unfolded parse_result_zero_def, simplified]
  have "assemble (''NOP'' @ [CHR 0x0A] @ ''.org 0xFFFE'' @ [CHR 0x0A] @ ''NOP'' @ [CHR 0x0A] @ ''HALT'') =
      Some (Inr (bvm_image 0 0 [opcode_code OP_HALT, 0] 0 []))"
    unfolding assemble_statements [OF lex_wrap build_wrap] by (simp add: emit)
  also have "\<dots> = assemble ''HALT''"
    unfolding assemble_statements [OF lex_halt build_halt] by (simp add: emit)
  finally show ?thesis .
qed

lemma emit_statements_overrun:
  assumes "\<forall>st \<in> set stmts. stmt_ok st \<and> values_ok symtab st" "\<exists>st \<in> set stmts. overruns st"
  shows "emit_statements stmts symtab out = Inl AsmUB"
  using assms
proof (induction stmts arbitrary: out)
  case (Cons st stmts)
  note x = emit_bytes_exact [of st symtab "if st_in_data st then pr_data out else pr_code out"]
  have ok: "stmt_ok st" "values_ok symtab st" using Cons.prems(1) by auto
  show ?case
  proof (cases "overruns st")
    case True
    with x ok show ?thesis by (simp add: emit_statement_def split: if_split_asm)
  next
    case False
    with x ok obtain t where "emit_bytes st symtab (if st_in_data st then pr_data out else pr_code out) = Inr t"
      by (cases "emit_bytes st symtab (if st_in_data st then pr_data out else pr_code out)") (auto, metis asm_error.exhaust)
    then obtain out' where "emit_statement st symtab out = Inr out'"
      by (auto simp: emit_statement_def split: if_split_asm)
    with False Cons show ?thesis by simp
  qed
qed simp

text \<open>A placed statement follows the one before it, labels aside, at its end modulo 65536.\<close>

definition follows :: "Statement \<Rightarrow> Statement \<Rightarrow> bool" where
  "follows s t \<longleftrightarrow> (emits s \<and> emits t \<longrightarrow> st_address t = st_address s + of_int (st_encoded_size s))"

definition no_labels :: "Statement list \<Rightarrow> Statement list" where
  "no_labels stmts = filter (\<lambda>st. \<not> is_label st) stmts"

definition placed_in_turn :: "Statement list \<Rightarrow> SectionState \<Rightarrow> bool" where
  "placed_in_turn stmts sec \<longleftrightarrow> successively follows (no_labels stmts) \<and>
     (no_labels stmts \<noteq> [] \<and> emits (last (no_labels stmts)) \<longrightarrow>
        active_cursor sec = st_address (last (no_labels stmts)) + of_int (st_encoded_size (last (no_labels stmts))))"

lemma placed_in_turn_step:
  "pass1_step s s' \<Longrightarrow> placed_in_turn (fst s) (snd (snd s)) \<Longrightarrow> placed_in_turn (fst s') (snd (snd s'))"
  by (erule pass1_step.cases)
    (auto simp: placed_in_turn_def no_labels_def is_label_def successively_append_iff follows_def emits_def)

lemma placed_in_turn_run:
  assumes "pass1_step\<^sup>*\<^sup>* ([], symtab_init, section_zero) (stmts, symtab, sec)"
  shows "placed_in_turn stmts sec"
proof -
  have "placed_in_turn (fst (stmts, symtab, sec)) (snd (snd (stmts, symtab, sec)))"
    using assms
    by (induction rule: rtranclp_induct) (auto simp: placed_in_turn_def no_labels_def dest: placed_in_turn_step)
  then show ?thesis by simp
qed

lemma unat_end: "0 \<le> st_encoded_size s \<Longrightarrow> unat (st_address s + of_int (st_encoded_size s)) = stmt_end s mod 65536"
proof -
  assume "0 \<le> st_encoded_size s"
  then have "(of_int (st_encoded_size s) :: u16) = of_nat (nat (st_encoded_size s))" by simp
  then have "st_address s + of_int (st_encoded_size s) = of_nat (stmt_end s)"
    by (simp add: stmt_end_def)
  then show ?thesis by (simp add: unat_of_nat)
qed

text \<open>
  C39: nothing checks that a program fits in memory. When pass 1 accepts a source, a statement
  that emits bytes and directly follows another one (labels aside) is placed at the end of that
  one modulo 65536, so after a statement that ends at or past 0x10000 the program continues
  at the bottom of memory; and when no value of the program is in error but some statement
  overruns the top, assembling it writes outside a buffer.
\<close>

theorem assemble_past_top:
  assumes "lex source = Inr toks"
    and "build_statements [] symtab_init section_zero toks = Some (Inr (stmts, symtab, sec))"
  shows "(\<forall>pre s t post. no_labels stmts = pre @ s # t # post \<and> emits s \<and> emits t \<longrightarrow>
      unat (st_address t) = stmt_end s mod 65536) \<and>
    ((\<forall>st \<in> set stmts. values_ok symtab st) \<and> (\<exists>st \<in> set stmts. overruns st) \<longrightarrow>
      assemble source = Some (Inl AsmUB))"
proof -
  note run = conjunct1 [OF build_statements_steps [OF assms(2)]]
  have ok: "\<forall>st \<in> set stmts. stmt_ok st" by (rule pass1_stmt_ok [OF run])
  have "unat (st_address t) = stmt_end s mod 65536"
    if "no_labels stmts = pre @ s # t # post" "emits s" "emits t" for pre s t post
  proof -
    have "s \<in> set (no_labels stmts)" using that(1) by simp
    then have "0 \<le> st_encoded_size s" using ok stmt_ok_size by (auto simp: no_labels_def)
    moreover have "follows s t"
      using placed_in_turn_run [OF run] that(1) by (simp add: placed_in_turn_def successively_append_iff)
    ultimately show ?thesis using that(2,3) unat_end by (simp add: follows_def)
  qed
  moreover have "assemble source = Some (Inl AsmUB)"
    if "\<forall>st \<in> set stmts. values_ok symtab st" "\<exists>st \<in> set stmts. overruns st"
    using emit_statements_overrun [of stmts symtab parse_result_zero] that ok
    by (simp add: assemble_statements [OF assms] asm_message_def)
  ultimately show ?thesis by blast
qed

theorem assemble_past_top_witness:
  "assemble (''.org 0xFFFF'' @ [CHR 0x0A] @ ''NOP'') = Some (Inl AsmUB) \<and>
   stmt_end (plain OP_NOP 3 0xFFFE) = 65536 \<and> unat (st_address (plain OP_HALT 4 0)) = 65536 mod 65536"
proof -
  have "values_ok symtab_init (org_stmt 1)" "values_ok symtab_init (plain OP_NOP 2 0xFFFF)" "overruns (plain OP_NOP 2 0xFFFF)"
    by code_simp+
  then have "assemble (''.org 0xFFFF'' @ [CHR 0x0A] @ ''NOP'') = Some (Inl AsmUB)"
    using conjunct2 [OF assemble_past_top [OF lex_top build_top]] by simp
  moreover have n: "no_labels [plain OP_NOP 1 0, org_stmt 2, plain OP_NOP 3 0xFFFE, plain OP_HALT 4 0] =
      [plain OP_NOP 1 0, org_stmt 2] @ plain OP_NOP 3 0xFFFE # plain OP_HALT 4 0 # []"
    "emits (plain OP_NOP 3 0xFFFE)" "emits (plain OP_HALT 4 0)" by code_simp+
  moreover have e: "stmt_end (plain OP_NOP 3 0xFFFE) = 65536" by (simp add: stmt_end_def plain_def)
  moreover have "unat (st_address (plain OP_HALT 4 0)) = 65536 mod 65536"
    using conjunct1 [OF assemble_past_top [OF lex_wrap build_wrap], rule_format,
        of "[plain OP_NOP 1 0, org_stmt 2]" "plain OP_NOP 3 0xFFFE" "plain OP_HALT 4 0" "[]"] n
    unfolding e by blast
  ultimately show ?thesis by blast
qed

lemma truncation: "(of_int (v mod 65536) :: u16) = of_int v"
  by (simp add: word_of_int_eq_iff take_bit_eq_mod)

text \<open>
  C40: the value of a .word is never checked: a number outside the 16-bit range is written
  modulo 65536, without an error (an immediate operand and a .byte are range checked).
\<close>

theorem word_truncated:
  assumes "st_kind st = STMT_WORD" "po_kind (st_word_operand st) = OPKIND_NUMBER"
  shows "emit_bytes st symtab target =
      emit_bytes (st\<lparr>st_word_operand := (st_word_operand st)\<lparr>po_number := po_number (st_word_operand st) mod 65536\<rparr>\<rparr>)
        symtab target \<and>
    (\<forall>msg line. emit_bytes st symtab target \<noteq> Inl (AsmError msg line))"
  using assms by (auto simp: emit_bytes_def resolve_value_def truncation asm_bind_def buf_write_def Let_def)

definition word_stmt :: "int \<Rightarrow> Statement" where
  "word_stmt v = statement_zero\<lparr>st_kind := STMT_WORD, st_line := 1, st_encoded_size := 2,
     st_word_operand := operand_zero\<lparr>po_kind := OPKIND_NUMBER, po_number := v\<rparr>\<rparr>"

theorem word_truncated_witness:
  "emit_bytes (word_stmt 65537) symtab_init (\<lambda>_. 0) = emit_bytes (word_stmt 1) symtab_init (\<lambda>_. 0)"
  using word_truncated [of "word_stmt 65537" symtab_init "\<lambda>_. 0"] by (simp add: word_stmt_def)

end
