(* ===== verification/Spec2Isabelle.thy ===== *)
theory Spec2Isabelle
  imports Bvm_Cli Bvm_Bounds
begin

text \<open>
  \<^bold>\<open>ByteVM\<close>: a 16-bit register machine with its assembler, loader, disassembler and debugger,
  written in C (src/src, src/include/bytevm; the design is docs/DESIGN.md).

  \<^bold>\<open>The program and its parts.\<close> A source text is turned into tokens (assembler/lexer.c), the
  tokens into statements with addresses and a symbol table (pass 1 of assembler/parser.c, with
  assembler/symtab.c), the statements into bytes in two 64 KB buffers (pass 2), and the buffers
  into a .bvm image (assembler.c). The loader (loader.c) checks an image and puts it into the
  memory (memory.c) of a machine (vm.h) with a register file (cpu.c); vm.c fetches an
  instruction through the decoder (instruction.c) and executes it. The disassembler
  (disassembler.c) turns an image back into source text, the debugger (debugger.c) drives a
  loaded machine by commands, and main.c offers run, asm, dis and debug.

  \<^bold>\<open>Theories, and what they model.\<close>

  \<^item> Bvm_Prelude: the C integer types as words, the collections of simplification rules, facts on
    lists, options and words.
  \<^item> Bvm_Common (common.c, common.h): VmResult and its texts. Bvm_Cpu (cpu.c): the record CPU,
    flags. Bvm_Memory (memory.c): the record Memory, 8-bit and wrapping 16-bit accesses.
  \<^item> Bvm_Instruction (opcode.h, instruction.c): Opcode, AddrMode, the opcode table, operand
    legality, instruction_decode; the inverse encode_instruction as a specification.
  \<^item> Bvm_Libc, Bvm_Cstring: what the program uses of the C library (character classes, printf
    conversions, getchar and ungetc on a console; fgets, strtok, strtol).
  \<^item> Bvm_Vm (vm.c): the record VM, one definition exec_* per instruction handler,
    instruction_execute, vm_step. A result None is undefined behaviour of the C code, here only a
    register index outside the array. The console is explicit state (the record Host).
  \<^item> Bvm_Alu, Bvm_Exec, Bvm_Stack, Bvm_Machine: correctness of the processor. Bvm_Alu relates bit
    tests to integer arithmetic; Bvm_Exec proves each handler and the invariant vm_inv;
    Bvm_Stack the stack; Bvm_Machine states the properties of vm_step and of whole runs
    (the relation vm_reaches).
  \<^item> Bvm_Loader (loader.c): vm_load; the image format (bvm_image, image_ok) and the protection of
    a loaded program from its own stack.
  \<^item> Bvm_Lexer (lexer.c, token.h), Bvm_Symtab (symtab.c), Bvm_Parser (pass 1 of parser.c),
    Bvm_Assembler (pass 2 of parser.c, and assembler.c).
  \<^item> Bvm_Layout, Bvm_Program, Bvm_Bounds: correctness of the assembler. Bvm_Layout proves that it
    terminates and describes pass 1 as runs of pass1_step, with the layout of the statements as
    its invariant; Bvm_Program follows the bytes of a statement into the loaded memory;
    Bvm_Bounds says exactly when pass 2 leaves its buffers.
  \<^item> Bvm_Disassembler (disassembler.c); Bvm_Listing, Bvm_Roundtrip: the text as a list of items,
    and the byte-for-byte round trip through the assembler.
  \<^item> Bvm_Debugger (debugger.c); Bvm_Run, Bvm_Session: bounded runs, and the correctness of the
    commands and of a session (the relation dbg_reaches).
  \<^item> Bvm_Main (main.c); Bvm_Cli: the command line on a console, an error stream and a file system.

  \<^bold>\<open>Interfaces.\<close> Where a part relies on another, the contract is a locale, interpreted on the
  model's own definitions: flag_register (cpu_flags_if), byte_memory (vm_mem),
  instruction_codec (codec), word_stack (data_stack for PUSH and POP, call_stack for CALL and
  RET), state_machine (vm_machine, for vm_step), image_loader (loader), symbol_table (symtab),
  bounded_set (bps, the breakpoints).

  \<^bold>\<open>What is proved.\<close>

  \<^item> Processor: arithmetic, logic and shifts with their flags against integer arithmetic; CMP with
    the conditional jumps against the order of the operands; the exact cases of every fault; every
    step keeps the invariant and is free of undefined behaviour; what a step may write; PUSH/POP
    and CALL/RET as one stack; STORE/LOAD, PRINT_INT/READ_INT round trips.
  \<^item> Encoding and images: the decoder accepts exactly the encodings of well-formed instructions;
    the loader accepts exactly the well-formed images and otherwise leaves the machine alone.
  \<^item> Assembler: it terminates on every text; lexing is inverse to printing; labels denote the
    address of what follows; statements are well-formed; the exact cases of a value error and of
    an overrun, against a specification of operand values and ranges that does not use the
    code's own checks; a program without them assembles to an image that loads, and each
    instruction decodes at its address to what was written.
  \<^item> Disassembler: never undefined, errors exactly as specified; of the images the loader accepts
    with their entry at the start of the code, exactly the canonical ones (code ending below
    0x10000, data after it, data address 0 if there is no data) reassemble to themselves, among
    them every assembled one.
  \<^item> Debugger: every command completes and keeps the invariant of the session; continue, step,
    break, delete and reset do what they promise; inspection leaves the machine alone; a session
    ends with its input.
  \<^item> Command line: the exit status, what asm writes (a failing flush at fclose goes unnoticed),
    asm then run against run, dis then asm, and that every invocation ends.

  \<^bold>\<open>Loops and bounds.\<close> Every loop is a terminating function, except two whose length depends
  on their input: build_statements and repl_loop are partial functions with values in option,
  and both are proved to return for every input (they consume a token, or a line of input, in
  every round). The step limits (MAX_STEPS of main.c, CONTINUE_STEP_LIMIT of debugger.c, both
  10000000) are those of the code; the proofs use of their value only that it is positive. There
  is no other fuel.

  \<^bold>\<open>Undefined behaviour.\<close> Where the code has it, the model has a value for it, so that theorems
  can exclude it or exhibit it: None for a bad array index or a read outside an image, AsmUB for
  a signed overflow in a number of the source and for an access outside the 64 KB buffers. The
  processor, loader, disassembler and debugger are proved free of it.

  \<^bold>\<open>Assumptions.\<close> Allocation succeeds; int has 32 bits, long and int64_t 64; a source has fewer
  than 2^31 lines; text is ASCII in the C locale; the debugger reads standard input and writes
  standard output, as main.c calls it, so that its commands and the input of the debugged program
  come from one console; writing to the console and to standard error succeeds. A file can fail
  to open, to seek or to tell its size, be read or written short, and lose bytes when closed.

  \<^bold>\<open>Not modelled, and why.\<close> The functions that only free memory (token_list_free, symtab_free,
  statement_list_free, assembly_result_free, disassembly_result_free), the growth of arrays and
  the out-of-memory branches, which have no counterpart where allocation succeeds; the tests and
  the example programs, which are data and clients of the parts above; the build files.

  \<^bold>\<open>Worth adding.\<close> The contents of the debugger's dumps (hex_dump, the stack dump) as a function
  of memory; the exact text of assembler errors per cause; a calculus for proving example
  programs on top of vm_reaches.
\<close>

end
